theory Spec2Isabelle
  imports Complex_Main "HOL-Library.Word"
begin
section \<open>The Digital RF streaming writer (rf\_write\_hdf5.c)\<close>

text \<open>
  The writer keeps one \<open>Digital_rf_write_object\<close> per channel and lays the samples of
  each write call down in a series of HDF5 files of \<open>samples_per_file\<close> rows each.
  All sample counters of the C code are \<open>uint64_t\<close>; they are 64-bit words here, so
  that \<open>+\<close> and \<open>-\<close> wrap around as they do in C.
\<close>

type_synonym u64 = "64 word"

subsection \<open>Error exits\<close>

text \<open>
  One constructor per error exit of the C code (each prints its own message to stderr).
  \<open>return_code\<close> gives the value the public write functions return for it.
\<close>

datatype error =
    NullData                      \<comment> \<open>"Null data passed in"\<close>
  | WriteBeforeCursor             \<comment> \<open>"Request index ... before first expected index"\<close>
  | IllegalIndexLen               \<comment> \<open>"Illegal index_len"\<close>
  | IllegalFirstValue             \<comment> \<open>"Illegal first value ... in data_index_arr, must be 0"\<close>
  | BeforeMinimum                 \<comment> \<open>"global_index_arr passed in ... before minimum value"\<close>
  | IndicesOutOfOrder nat         \<comment> \<open>"indices in data_index_arr out of order"\<close>
  | IndicesAdvancingFaster nat    \<comment> \<open>"indices advancing faster than global index"\<close>
  | GmtimeFailed                  \<comment> \<open>gmtime returned NULL\<close>
  | MkdirFailed                   \<comment> \<open>"Unable to create directory"\<close>
  | FileCreateFailed              \<comment> \<open>"... could not be created, or already exists"\<close>
  | H5DwriteFailed                \<comment> \<open>"Failure at H5DWrite"\<close>
  | IndexWriteFailed              \<comment> \<open>digital\_rf\_write\_rf\_data\_index returned non-zero\<close>
  | NoSamplesWritten              \<comment> \<open>the file slice wrote 0 samples without an error\<close>
  | AssertionFailed               \<comment> \<open>an assert of the C code does not hold: abort\<close>
  | BufferOverrun                 \<comment> \<open>store past the end of the malloced row array\<close>
  | NullSubDirectory              \<comment> \<open>strcat of the NULL sub\_directory\<close>
  | DivideByZero                  \<comment> \<open>\<open>%\<close> by files\_per\_directory = 0\<close>
  | UnexpectedIntegerSize         \<comment> \<open>"Integer type has unexpected number of bytes"\<close>
  | NotIntegerNorFloat            \<comment> \<open>"... is neither integer nor float - aborting"\<close>

fun return_code :: "error + unit \<Rightarrow> int" where
  "return_code (Inr u) = 0"
| "return_code (Inl NullData) = -2"
| "return_code (Inl WriteBeforeCursor) = -3"
| "return_code (Inl e) = -6"

subsection \<open>Files on disk and the writer object\<close>

text \<open>
  An HDF5 file as far as the writer fills it: its full name, the \<open>sequence_num\<close>
  attribute, the hyperslabs written to \<open>/rf_data\<close> (offset in the file and the samples)
  and the rows of \<open>/rf_data_index\<close> (global sample, row in the file).
\<close>

record 'a h5file =
  file_name :: string
  sequence_num :: int
  rf_data :: "(u64 \<times> 'a list) list"
  rf_data_index :: "(u64 \<times> u64) list"

text \<open>
  The fields of \<open>Digital_rf_write_object\<close> that the write path reads or changes,
  together with the part of the file system below the channel directory
  (\<open>fs_dirs\<close>, \<open>fs_files\<close>). \<open>hdf5_file\<close> is the handle of the open file:
  0 when none is open, otherwise the 1-based position of the file in \<open>fs_files\<close>.
  \<open>index_dataset\<close> tells whether \<open>/rf_data_index\<close> exists in the open file (a non-zero
  handle in C). \<open>'d\<close> is the type of C doubles.
\<close>

record ('a, 'd) writer =
  directory :: string
  sub_directory :: "string option"
  samples_per_file :: u64
  files_per_directory :: u64
  global_start_sample :: u64
  sample_rate :: 'd
  needs_chunking :: bool
  chunk_size :: int
  global_index :: u64
  present_seq :: int
  dataset_index :: u64
  dataset_avail :: u64
  hdf5_file :: nat
  index_dataset :: bool
  next_index_avail :: nat
  fs_dirs :: "string list"
  fs_files :: "'a h5file list"

subsection \<open>digital\_rf\_create\_rf\_data\_index\<close>

text \<open>
  The index arrays of a write call are C pointers: \<open>global_index_arr i\<close> and
  \<open>data_index_arr i\<close> are the values stored at position \<open>i\<close>, \<open>index_len\<close> is the
  number of entries the writer reads.

  \<open>index_in_file\<close> is the test \<open>this_index >= first_index && this_index < end_index\<close>,
  with \<open>first_index = samples_written\<close> and
  \<open>end_index = (first_index + samples_per_file) - dataset_index\<close>;
  \<open>index_ignored\<close> is the test \<open>this_index == first_index && dataset_index > 0 &&
  global_index == global_index_arr[i]\<close>.
\<close>

definition end_index :: "('a, 'd) writer \<Rightarrow> u64 \<Rightarrow> u64" where
  "end_index st samples_written = (samples_written + samples_per_file st) - dataset_index st"

definition index_in_file :: "('a, 'd) writer \<Rightarrow> u64 \<Rightarrow> u64 \<Rightarrow> bool" where
  "index_in_file st samples_written this_index \<longleftrightarrow>
     this_index \<ge> samples_written \<and> this_index < end_index st samples_written"

definition index_ignored :: "('a, 'd) writer \<Rightarrow> u64 \<Rightarrow> u64 \<Rightarrow> u64 \<Rightarrow> bool" where
  "index_ignored st samples_written this_index g \<longleftrightarrow>
     this_index = samples_written \<and> dataset_index st > 0 \<and> global_index st = g"

text \<open>The row written for a user pair: global index with the start sample added, and the
  data index converted to a row of the file.\<close>

definition index_row :: "('a, 'd) writer \<Rightarrow> u64 \<Rightarrow> u64 \<Rightarrow> u64 \<Rightarrow> u64 \<times> u64" where
  "index_row st samples_written g this_index =
     (g + global_start_sample st, this_index + dataset_index st - samples_written)"

text \<open>The extra first row written at a file boundary.\<close>

definition boundary_row :: "('a, 'd) writer \<Rightarrow> u64 \<times> u64" where
  "boundary_row st = (global_index st + global_start_sample st, 0)"

text \<open>
  First pass: checks the index arrays and counts the rows. The loop state is
  \<open>last_index\<close>, \<open>first_index_found\<close> and \<open>row_count\<close>.
\<close>

function count_index_rows ::
  "('a, 'd) writer \<Rightarrow> u64 \<Rightarrow> (nat \<Rightarrow> u64) \<Rightarrow> (nat \<Rightarrow> u64) \<Rightarrow> nat \<Rightarrow>
   nat \<Rightarrow> u64 \<Rightarrow> bool \<Rightarrow> nat \<Rightarrow> error + (bool \<times> nat)" where
  "count_index_rows st samples_written global_index_arr data_index_arr index_len
     i last_index first_index_found row_count =
   (if i < index_len then
      let this_index = data_index_arr i in
      if 0 < i \<and> last_index \<ge> this_index then Inl (IndicesOutOfOrder i)
      else if 0 < i \<and> this_index - last_index > global_index_arr i - global_index_arr (i - 1)
      then Inl (IndicesAdvancingFaster i)
      else count_index_rows st samples_written global_index_arr data_index_arr index_len
             (Suc i) this_index
             (first_index_found \<or> this_index = samples_written)
             (if index_in_file st samples_written this_index
                 \<and> \<not> index_ignored st samples_written this_index (global_index_arr i)
              then Suc row_count else row_count)
    else Inr (first_index_found, row_count))"
  by pat_completeness auto
termination
  by (relation "measure (\<lambda>(st, sw, g, d, index_len, i, rest). index_len - i)") auto

declare count_index_rows.simps [simp del]

text \<open>
  Second pass: fills the malloced array \<open>ret_arr\<close> of \<open>row_count\<close> rows. A store past
  its end is undefined behaviour in C and is the error \<open>BufferOverrun\<close> here.
\<close>

definition store_row :: "(u64 \<times> u64) list \<Rightarrow> nat \<Rightarrow> u64 \<times> u64 \<Rightarrow> error + (u64 \<times> u64) list" where
  "store_row ret_arr k row = (if k < length ret_arr then Inr (ret_arr[k := row]) else Inl BufferOverrun)"

function fill_index_rows ::
  "('a, 'd) writer \<Rightarrow> u64 \<Rightarrow> (nat \<Rightarrow> u64) \<Rightarrow> (nat \<Rightarrow> u64) \<Rightarrow> nat \<Rightarrow>
   nat \<Rightarrow> (u64 \<times> u64) list \<Rightarrow> nat \<Rightarrow> error + ((u64 \<times> u64) list \<times> nat)" where
  "fill_index_rows st samples_written global_index_arr data_index_arr index_len
     i ret_arr rows_written =
   (if i < index_len then
      let this_index = data_index_arr i in
      if index_ignored st samples_written this_index (global_index_arr i)
      then fill_index_rows st samples_written global_index_arr data_index_arr index_len
             (Suc i) ret_arr rows_written
      else if index_in_file st samples_written this_index then
        if this_index = samples_written then
          (case store_row ret_arr 0 (index_row st samples_written (global_index_arr i) this_index) of
             Inl e \<Rightarrow> Inl e
           | Inr ret_arr1 \<Rightarrow>
               fill_index_rows st samples_written global_index_arr data_index_arr index_len
                 (Suc i) ret_arr1 (Suc rows_written))
        else if rows_written = 0 \<and> i = 0 then Inl AssertionFailed
        else
          (case (if rows_written = 0 then store_row ret_arr 0 (boundary_row st) else Inr ret_arr) of
             Inl e \<Rightarrow> Inl e
           | Inr ret_arr1 \<Rightarrow>
               let rows_written1 = (if rows_written = 0 then 1 else rows_written) in
               (case store_row ret_arr1 rows_written1
                       (index_row st samples_written (global_index_arr i) this_index) of
                  Inl e \<Rightarrow> Inl e
                | Inr ret_arr2 \<Rightarrow>
                    fill_index_rows st samples_written global_index_arr data_index_arr index_len
                      (Suc i) ret_arr2 (Suc rows_written1)))
      else fill_index_rows st samples_written global_index_arr data_index_arr index_len
             (Suc i) ret_arr rows_written
    else Inr (ret_arr, rows_written))"
  by pat_completeness auto
termination
  by (relation "measure (\<lambda>(st, sw, g, d, index_len, i, rest). index_len - i)") auto

declare fill_index_rows.simps [simp del]

text \<open>
  The whole function: \<open>Inr rows\<close> is the returned array with \<open>rows_to_write = length rows\<close>
  (\<open>Inr []\<close> is the NULL return with \<open>rows_to_write = 0\<close>); \<open>Inl e\<close> is the NULL return
  with \<open>rows_to_write = -1\<close>, or an abort. The malloced block starts out as zeros here;
  every row of it is stored before it is returned.
\<close>

definition digital_rf_create_rf_data_index ::
  "('a, 'd) writer \<Rightarrow> u64 \<Rightarrow> (nat \<Rightarrow> u64) \<Rightarrow> (nat \<Rightarrow> u64) \<Rightarrow> nat \<Rightarrow> error + (u64 \<times> u64) list" where
  "digital_rf_create_rf_data_index st samples_written global_index_arr data_index_arr index_len =
   (if samples_written = 0 \<and> global_index_arr 0 < global_index st then Inl BeforeMinimum
    else
      case count_index_rows st samples_written global_index_arr data_index_arr index_len
             0 0 False 0 of
        Inl e \<Rightarrow> Inl e
      | Inr (first_index_found, row_count0) \<Rightarrow>
          let row_count = (if \<not> first_index_found then Suc row_count0 else row_count0) in
          if row_count = 0 then Inr []
          else
            (case fill_index_rows st samples_written global_index_arr data_index_arr index_len
                    0 (replicate row_count (0, 0)) 0 of
               Inl e \<Rightarrow> Inl e
             | Inr (ret_arr, rows_written) \<Rightarrow>
                 (case (if rows_written = 0 then store_row ret_arr 0 (boundary_row st) else Inr ret_arr) of
                    Inl e \<Rightarrow> Inl e
                  | Inr ret_arr1 \<Rightarrow>
                      let rows_written1 = (if rows_written = 0 then 1 else rows_written) in
                      if rows_written1 = row_count then Inr ret_arr1 else Inl AssertionFailed)))"

subsection \<open>digital\_rf\_get\_global\_sample\<close>

function global_sample_loop :: "u64 \<Rightarrow> (nat \<Rightarrow> u64) \<Rightarrow> (nat \<Rightarrow> u64) \<Rightarrow> nat \<Rightarrow> nat \<Rightarrow> u64 \<Rightarrow> u64" where
  "global_sample_loop samples_written global_index_arr data_index_arr index_len i ret_value =
   (if i < index_len then
      if samples_written < data_index_arr i then ret_value
      else global_sample_loop samples_written global_index_arr data_index_arr index_len (Suc i)
             (global_index_arr i + (samples_written - data_index_arr i))
    else ret_value)"
  by pat_completeness auto
termination
  by (relation "measure (\<lambda>(sw, g, d, index_len, i, r). index_len - i)") auto

declare global_sample_loop.simps [simp del]

definition digital_rf_get_global_sample :: "u64 \<Rightarrow> (nat \<Rightarrow> u64) \<Rightarrow> (nat \<Rightarrow> u64) \<Rightarrow> nat \<Rightarrow> u64" where
  "digital_rf_get_global_sample samples_written global_index_arr data_index_arr index_len =
     global_sample_loop samples_written global_index_arr data_index_arr index_len 1
       (global_index_arr 0 + (samples_written - data_index_arr 0))"

subsection \<open>The C library and HDF5 calls\<close>

text \<open>
  What the writer asks of the platform is a parameter of the model: the IEEE-754 double
  operations (\<open>'d\<close> is the type of C doubles), \<open>gmtime\<close>, \<open>printf\<close>'s \<open>%011.3f\<close>, and
  whether a call into the file system or HDF5 succeeds. \<open>mkdir\<close> and \<open>H5Fcreate\<close> with
  \<open>H5F_ACC_EXCL\<close> fail in any case when the directory or file already exists.
\<close>

record tm =
  tm_year :: int
  tm_mon :: int
  tm_mday :: int
  tm_hour :: int
  tm_min :: int
  tm_sec :: int

record 'd c_lib =
  double_of_u64 :: "u64 \<Rightarrow> 'd"          \<comment> \<open>conversion \<open>(double)x\<close>\<close>
  u64_of_double :: "'d \<Rightarrow> u64"          \<comment> \<open>conversion \<open>(uint64_t)x\<close>\<close>
  time_of_double :: "'d \<Rightarrow> u64"         \<comment> \<open>conversion \<open>(time_t)x\<close>, as a 64-bit pattern\<close>
  ddiv :: "'d \<Rightarrow> 'd \<Rightarrow> 'd"
  dmul :: "'d \<Rightarrow> 'd \<Rightarrow> 'd"
  dfmod :: "'d \<Rightarrow> 'd \<Rightarrow> 'd"
  dround :: "'d \<Rightarrow> 'd"
  deq :: "'d \<Rightarrow> 'd \<Rightarrow> bool"            \<comment> \<open>\<open>==\<close> on doubles\<close>
  d_0 :: 'd
  d_1 :: 'd
  d_1e12 :: 'd
  gmtime :: "u64 \<Rightarrow> tm option"          \<comment> \<open>\<open>None\<close> is the NULL return\<close>
  sprintf_011_3f :: "'d \<Rightarrow> string"      \<comment> \<open>\<open>sprintf(s, "%011.3f", x)\<close>\<close>
  mkdir_ok :: "string \<Rightarrow> bool"
  H5Fcreate_ok :: "string \<Rightarrow> bool"
  H5Dwrite_ok :: "nat \<Rightarrow> u64 \<Rightarrow> bool"    \<comment> \<open>file handle, offset\<close>
  index_write_ok :: "nat \<Rightarrow> nat \<Rightarrow> bool" \<comment> \<open>file handle, first row\<close>

subsection \<open>digital\_rf\_get\_unix\_time\<close>

definition digital_rf_get_unix_time ::
  "'d c_lib \<Rightarrow> u64 \<Rightarrow> 'd \<Rightarrow> error + (int \<times> int \<times> int \<times> int \<times> int \<times> int \<times> u64)" where
  "digital_rf_get_unix_time lib global_sample rate =
   (let unix_second = time_of_double lib (ddiv lib (double_of_u64 lib global_sample) rate) in
    case gmtime lib unix_second of
      None \<Rightarrow> Inl GmtimeFailed
    | Some gm \<Rightarrow>
        let unix_remainder =
              (if deq lib (dfmod lib rate (d_1 lib)) (d_0 lib)
               then double_of_u64 lib (global_sample - unix_second * u64_of_double lib rate)
               else dfmod lib (double_of_u64 lib global_sample) rate);
            picosecond = u64_of_double lib (dround lib (dmul lib (ddiv lib unix_remainder rate) (d_1e12 lib)))
        in Inr (tm_year gm + 1900, tm_mon gm + 1, tm_mday gm, tm_hour gm, tm_min gm, tm_sec gm,
                picosecond))"

subsection \<open>digital\_rf\_create\_new\_directory\<close>

text \<open>\<open>printf\<close>'s \<open>%0wi\<close>: decimal digits, padded with zeros to width \<open>w\<close>, the sign first.\<close>

fun dec_digits :: "nat \<Rightarrow> string" where
  "dec_digits n =
     (if n < 10 then [''0123456789'' ! n]
      else dec_digits (n div 10) @ [''0123456789'' ! (n mod 10)])"

declare dec_digits.simps [simp del]

definition zero_pad :: "nat \<Rightarrow> string \<Rightarrow> string" where
  "zero_pad w s = replicate (w - length s) (CHR ''0'') @ s"

definition sprintf_0i :: "nat \<Rightarrow> int \<Rightarrow> string" where
  "sprintf_0i w n =
     (if n < 0 then CHR ''-'' # zero_pad (w - 1) (dec_digits (nat (- n)))
      else zero_pad w (dec_digits (nat n)))"

text \<open>The name of the new subdirectory, \<open>YYYY-MM-DDTHH:MM:SS\<close>, from
  digital\_rf\_get\_unix\_time of the next sample with the start sample added.\<close>

definition sub_directory_of :: "'d c_lib \<Rightarrow> ('a, 'd) writer \<Rightarrow> u64 \<Rightarrow> error + string" where
  "sub_directory_of lib st next_global_sample =
   (case digital_rf_get_unix_time lib (next_global_sample + global_start_sample st) (sample_rate st) of
      Inl e \<Rightarrow> Inl e
    | Inr (year, month, day, hour, minute, second, picosecond) \<Rightarrow>
        Inr (sprintf_0i 4 year @ ''-'' @ sprintf_0i 2 month @ ''-'' @ sprintf_0i 2 day @ ''T''
             @ sprintf_0i 2 hour @ '':'' @ sprintf_0i 2 minute @ '':'' @ sprintf_0i 2 second))"

definition digital_rf_create_new_directory ::
  "'d c_lib \<Rightarrow> ('a, 'd) writer \<Rightarrow> u64 \<Rightarrow> (error + unit) \<times> ('a, 'd) writer" where
  "digital_rf_create_new_directory lib st next_global_sample =
   (case sub_directory_of lib st next_global_sample of
      Inl e \<Rightarrow> (Inl e, st)
    | Inr sub \<Rightarrow>
        let full_directory = directory st @ sub
        in if full_directory \<in> set (fs_dirs st) \<or> \<not> mkdir_ok lib full_directory
           then (Inl MkdirFailed, st)
           else (Inr (), st\<lparr>fs_dirs := fs_dirs st @ [full_directory],
                            sub_directory := Some (sub @ ''/'')\<rparr>))"

subsection \<open>digital\_rf\_create\_hdf5\_file\<close>

text \<open>
  \<open>present_seq\<close> is a C int; in \<open>present_seq % files_per_directory\<close> it is converted to
  \<open>uint64_t\<close>. The new file holds no hyperslab and no index row yet; the
  \<open>sequence_num\<close> attribute is the one digital\_rf\_write\_metadata writes.
\<close>

definition file_basename :: "'d c_lib \<Rightarrow> ('a, 'd) writer \<Rightarrow> u64 \<Rightarrow> string" where
  "file_basename lib st next_global_sample =
     ''rf@'' @ sprintf_011_3f lib
                (ddiv lib (double_of_u64 lib (next_global_sample + global_start_sample st))
                   (sample_rate st))
     @ ''.h5''"

definition digital_rf_create_hdf5_file ::
  "'d c_lib \<Rightarrow> ('a, 'd) writer \<Rightarrow> u64 \<Rightarrow> (error + unit) \<times> ('a, 'd) writer" where
  "digital_rf_create_hdf5_file lib st next_global_sample =
   (let basename = file_basename lib st next_global_sample;
        st1 = st\<lparr>present_seq := present_seq st + 1\<rparr>
    in if files_per_directory st1 = 0 then (Inl DivideByZero, st1)
       else
         case (if (word_of_int (present_seq st1) :: u64) mod files_per_directory st1 = 0
               then digital_rf_create_new_directory lib st1 next_global_sample
               else (Inr (), st1)) of
           (Inl e, st2) \<Rightarrow> (Inl e, st2)
         | (Inr u, st2) \<Rightarrow>
             (case sub_directory st2 of
                None \<Rightarrow> (Inl NullSubDirectory, st2)
              | Some sub \<Rightarrow>
                  let fullname = directory st2 @ sub @ basename in
                  if fullname \<in> set (map file_name (fs_files st2)) \<or> \<not> H5Fcreate_ok lib fullname
                  then (Inl FileCreateFailed, st2\<lparr>hdf5_file := 0\<rparr>)
                  else (Inr (),
                        st2\<lparr>fs_files := fs_files st2 @
                               [\<lparr>file_name = fullname, sequence_num = present_seq st2,
                                 rf_data = [], rf_data_index = []\<rparr>],
                            hdf5_file := Suc (length (fs_files st2)),
                            dataset_index := 0,
                            dataset_avail := samples_per_file st2\<rparr>)))"

subsection \<open>digital\_rf\_write\_rf\_data\_index\<close>

text \<open>Changing the file behind a handle; \<open>H5Dset_extent\<close> and a write of rows at an offset.\<close>

definition h5_file_update ::
  "nat \<Rightarrow> ('a h5file \<Rightarrow> 'a h5file) \<Rightarrow> 'a h5file list \<Rightarrow> 'a h5file list" where
  "h5_file_update h f files =
     (if 0 < h \<and> h \<le> length files then files[h - 1 := f (files ! (h - 1))] else files)"

definition h5_set_extent :: "nat \<Rightarrow> (u64 \<times> u64) list \<Rightarrow> (u64 \<times> u64) list" where
  "h5_set_extent n rows = take n (rows @ replicate n (0, 0))"

definition h5_write_rows :: "nat \<Rightarrow> (u64 \<times> u64) list \<Rightarrow> (u64 \<times> u64) list \<Rightarrow> (u64 \<times> u64) list" where
  "h5_write_rows off new rows = take off rows @ new @ drop (off + length new) rows"

definition digital_rf_write_rf_data_index ::
  "'d c_lib \<Rightarrow> ('a, 'd) writer \<Rightarrow> (u64 \<times> u64) list \<Rightarrow> (error + unit) \<times> ('a, 'd) writer" where
  "digital_rf_write_rf_data_index lib st rf_data_index_arr =
   (let block_index_len = length rf_data_index_arr in
    if \<not> index_dataset st then
      let st1 = st\<lparr>index_dataset := True,
                   fs_files := h5_file_update (hdf5_file st)
                     (\<lambda>f. f\<lparr>rf_data_index := replicate block_index_len (0, 0)\<rparr>) (fs_files st)\<rparr>
      in if \<not> index_write_ok lib (hdf5_file st) 0 then (Inl IndexWriteFailed, st1)
         else (Inr (),
               st1\<lparr>fs_files := h5_file_update (hdf5_file st1)
                      (\<lambda>f. f\<lparr>rf_data_index := h5_write_rows 0 rf_data_index_arr (rf_data_index f)\<rparr>)
                      (fs_files st1),
                   next_index_avail := block_index_len\<rparr>)
    else
      let st1 = st\<lparr>fs_files := h5_file_update (hdf5_file st)
                     (\<lambda>f. f\<lparr>rf_data_index :=
                              h5_set_extent (next_index_avail st + block_index_len) (rf_data_index f)\<rparr>)
                     (fs_files st)\<rparr>
      in if \<not> index_write_ok lib (hdf5_file st) (next_index_avail st) then (Inl IndexWriteFailed, st1)
         else (Inr (),
               st1\<lparr>fs_files := h5_file_update (hdf5_file st1)
                      (\<lambda>f. f\<lparr>rf_data_index :=
                               h5_write_rows (next_index_avail st1) rf_data_index_arr (rf_data_index f)\<rparr>)
                      (fs_files st1),
                   next_index_avail := next_index_avail st1 + block_index_len\<rparr>))"

subsection \<open>digital\_rf\_write\_samples\_to\_file\<close>

text \<open>
  The data vector is a C pointer as well: \<open>vector i\<close> is sample \<open>i\<close> of the caller's
  buffer (all subchannels, real and imaginary part). The result is the number of
  samples written, or the error after which the C function returns 0, with the writer as
  the call leaves it.
\<close>

definition close_full_file :: "('a, 'd) writer \<Rightarrow> ('a, 'd) writer" where
  "close_full_file st = st\<lparr>index_dataset := False, hdf5_file := 0, dataset_index := 0\<rparr>"

definition advance_global_index :: "('a, 'd) writer \<Rightarrow> (u64 \<times> u64) list \<Rightarrow> u64 \<Rightarrow> u64" where
  "advance_global_index st rf_data_index_arr samples_to_write =
     (if 0 < length rf_data_index_arr then
        let last_global_index = fst (last rf_data_index_arr) - global_start_sample st;
            samples_after_last_global_index =
              samples_to_write - (snd (last rf_data_index_arr) - snd (hd rf_data_index_arr))
        in last_global_index + samples_after_last_global_index
      else global_index st + samples_to_write)"

text \<open>The steps of the function, in the order of the source.\<close>

definition open_file_if_needed ::
  "'d c_lib \<Rightarrow> ('a, 'd) writer \<Rightarrow> u64 \<Rightarrow> (error + unit) \<times> ('a, 'd) writer" where
  "open_file_if_needed lib st next_global_index =
     (if hdf5_file st = 0 then digital_rf_create_hdf5_file lib st next_global_index
      else (Inr (), st))"

definition samples_to_write_of :: "('a, 'd) writer \<Rightarrow> u64 \<Rightarrow> u64 \<Rightarrow> u64" where
  "samples_to_write_of st vector_length samples_written =
     (let samples_left_to_write = vector_length - samples_written
      in if samples_left_to_write > dataset_avail st then dataset_avail st
         else samples_left_to_write)"

text \<open>The effect of \<open>H5Dwrite\<close> on \<open>/rf_data\<close>: the hyperslab at \<open>dataset_index\<close>.\<close>

definition h5_write_rf_data ::
  "('a, 'd) writer \<Rightarrow> u64 \<Rightarrow> u64 \<Rightarrow> (nat \<Rightarrow> 'a) \<Rightarrow> ('a, 'd) writer" where
  "h5_write_rf_data st samples_written samples_to_write vector =
     st\<lparr>fs_files := h5_file_update (hdf5_file st)
          (\<lambda>f. f\<lparr>rf_data := rf_data f @
                   [(dataset_index st,
                     map vector [unat samples_written ..<
                                 unat samples_written + unat samples_to_write])]\<rparr>)
          (fs_files st)\<rparr>"

text \<open>"advance state", the assert, and closing the file when it is full.\<close>

definition advance_state ::
  "('a, 'd) writer \<Rightarrow> (u64 \<times> u64) list \<Rightarrow> u64 \<Rightarrow> (error + u64) \<times> ('a, 'd) writer" where
  "advance_state st rf_data_index_arr samples_to_write =
     (let st4 = st\<lparr>dataset_index := dataset_index st + samples_to_write,
                   dataset_avail := dataset_avail st - samples_to_write,
                   global_index := advance_global_index st rf_data_index_arr samples_to_write\<rparr>
      in if \<not> dataset_index st4 \<le> samples_per_file st4 then (Inl AssertionFailed, st4)
         else (Inr samples_to_write,
               if dataset_index st4 = samples_per_file st4 then close_full_file st4 else st4))"

definition digital_rf_write_samples_to_file ::
  "'d c_lib \<Rightarrow> ('a, 'd) writer \<Rightarrow> u64 \<Rightarrow> (nat \<Rightarrow> u64) \<Rightarrow> (nat \<Rightarrow> u64) \<Rightarrow> nat \<Rightarrow>
   (nat \<Rightarrow> 'a) \<Rightarrow> u64 \<Rightarrow> (error + u64) \<times> ('a, 'd) writer" where
  "digital_rf_write_samples_to_file lib st samples_written global_index_arr data_index_arr
     index_len vector vector_length =
   (if index_len < 1 then (Inl IllegalIndexLen, st)
    else if data_index_arr 0 \<noteq> 0 then (Inl IllegalFirstValue, st)
    else
      case digital_rf_create_rf_data_index st samples_written global_index_arr data_index_arr
             index_len of
        Inl e \<Rightarrow> (Inl e, st)
      | Inr rf_data_index_arr \<Rightarrow>
          (case open_file_if_needed lib st
                  (digital_rf_get_global_sample samples_written global_index_arr
                     data_index_arr index_len) of
             (Inl e, st1) \<Rightarrow> (Inl e, st1)
           | (Inr u, st1) \<Rightarrow>
               let samples_to_write = samples_to_write_of st1 vector_length samples_written
               in if \<not> H5Dwrite_ok lib (hdf5_file st1) (dataset_index st1)
                  then (Inl H5DwriteFailed, st1)
                  else
                    (case (if 0 < length rf_data_index_arr
                           then digital_rf_write_rf_data_index lib
                                  (h5_write_rf_data st1 samples_written samples_to_write vector)
                                  rf_data_index_arr
                           else (Inr (), h5_write_rf_data st1 samples_written samples_to_write vector)) of
                       (Inl e, st3) \<Rightarrow> (Inl e, st3)
                     | (Inr u, st3) \<Rightarrow> advance_state st3 rf_data_index_arr samples_to_write)))"

subsection \<open>digital\_rf\_write\_blocks\_hdf5 and digital\_rf\_write\_hdf5\<close>

text \<open>
  The loop \<open>while (samples_written < vector_length)\<close>. Nothing in its shape bounds the
  number of iterations, so it is a partial function: \<open>None\<close> would be a loop that never
  returns.
\<close>

partial_function (option) write_loop ::
  "'d c_lib \<Rightarrow> ('a, 'd) writer \<Rightarrow> u64 \<Rightarrow> (nat \<Rightarrow> u64) \<Rightarrow> (nat \<Rightarrow> u64) \<Rightarrow> nat \<Rightarrow>
   (nat \<Rightarrow> 'a) \<Rightarrow> u64 \<Rightarrow> ((error + unit) \<times> ('a, 'd) writer) option" where
  "write_loop lib st samples_written global_index_arr data_index_arr index_len vector vector_length =
   (if samples_written < vector_length then
      case digital_rf_write_samples_to_file lib st samples_written global_index_arr
             data_index_arr index_len vector vector_length of
        (Inl e, st1) \<Rightarrow> Some (Inl e, st1)
      | (Inr dataset_samples_written, st1) \<Rightarrow>
          if dataset_samples_written = 0 then Some (Inl NoSamplesWritten, st1)
          else write_loop lib st1 (samples_written + dataset_samples_written) global_index_arr
                 data_index_arr index_len vector vector_length
    else Some (Inr (), st))"

text \<open>
  \<open>vector = None\<close> is the NULL pointer. \<open>chunk_size\<close> is a C int that receives a
  \<open>uint64_t\<close>: the low 32 bits, read as two's complement.
\<close>

definition set_chunking :: "('a, 'd) writer \<Rightarrow> u64 \<Rightarrow> ('a, 'd) writer" where
  "set_chunking st vector_length =
     (if needs_chunking st \<and> chunk_size st = 0 then
        st\<lparr>chunk_size :=
             (if vector_length < samples_per_file st
              then sint (ucast vector_length :: 32 word)
              else sint (ucast (samples_per_file st) :: 32 word))\<rparr>
      else st)"

definition digital_rf_write_blocks_hdf5 ::
  "'d c_lib \<Rightarrow> ('a, 'd) writer \<Rightarrow> (nat \<Rightarrow> u64) \<Rightarrow> (nat \<Rightarrow> u64) \<Rightarrow> nat \<Rightarrow>
   (nat \<Rightarrow> 'a) option \<Rightarrow> u64 \<Rightarrow> ((error + unit) \<times> ('a, 'd) writer) option" where
  "digital_rf_write_blocks_hdf5 lib st global_index_arr data_index_arr index_len vector vector_length =
   (case vector of
      None \<Rightarrow> Some (Inl NullData, st)
    | Some v \<Rightarrow>
        if global_index_arr 0 < global_index st then Some (Inl WriteBeforeCursor, st)
        else write_loop lib (set_chunking st vector_length) 0 global_index_arr data_index_arr
               index_len v vector_length)"

definition digital_rf_write_hdf5 ::
  "'d c_lib \<Rightarrow> ('a, 'd) writer \<Rightarrow> u64 \<Rightarrow> (nat \<Rightarrow> 'a) option \<Rightarrow> u64 \<Rightarrow>
   ((error + unit) \<times> ('a, 'd) writer) option" where
  "digital_rf_write_hdf5 lib st global_leading_edge_index vector vector_length =
     digital_rf_write_blocks_hdf5 lib st (\<lambda>i. global_leading_edge_index) (\<lambda>i. 0) 1
       vector vector_length"

subsection \<open>digital\_rf\_set\_fill\_value\<close>

text \<open>
  What the function asks HDF5 about \<open>dtype_id\<close>: class, sign, size in bytes and byte
  order.
\<close>

datatype h5t_class = H5T_INTEGER | H5T_FLOAT | H5T_OTHER_CLASS
datatype h5t_sign = H5T_SGN_NONE | H5T_SGN_2
datatype h5t_order = H5T_ORDER_LE | H5T_ORDER_BE | H5T_ORDER_OTHER

record h5_dtype =
  dtype_class :: h5t_class
  dtype_sign :: h5t_sign
  dtype_size :: nat
  dtype_order :: h5t_order

type_synonym byte = "8 word"

text \<open>
  \<open>H5Pset_fill_value (plist, type_id, value)\<close> takes the fill value through a pointer and
  copies as many bytes from it as \<open>type_id\<close> has. So the local variables of the function
  are modelled by their bytes in the memory of the host: \<open>host_bytes le n v\<close> is the
  \<open>n\<close>-byte two's complement integer \<open>v\<close> on a little-endian (\<open>le\<close>) or big-endian host.
  Copying more bytes than the variable has reads past it; the fill value is then
  \<open>FillIndeterminate\<close>.
\<close>

fun le_bytes :: "nat \<Rightarrow> int \<Rightarrow> byte list" where
  "le_bytes 0 v = []"
| "le_bytes (Suc n) v = word_of_int v # le_bytes n (v div 256)"

definition host_bytes :: "bool \<Rightarrow> nat \<Rightarrow> int \<Rightarrow> byte list" where
  "host_bytes le n v = (if le then le_bytes n v else rev (le_bytes n v))"

datatype fill = FillBytes "byte list" | FillIndeterminate

definition H5Pset_fill_value :: "nat \<Rightarrow> byte list \<Rightarrow> fill" where
  "H5Pset_fill_value type_size value =
     (if type_size \<le> length value then FillBytes (take type_size value) else FillIndeterminate)"

text \<open>
  \<open>NAN\<close> is the quiet NaN of GCC and glibc: \<open>0x7fc00000\<close> as a float, and
  \<open>0x7ff8000000000000\<close> once converted to double.
\<close>

definition float_fill :: "bool \<Rightarrow> byte list" where
  "float_fill le = host_bytes le 4 0x7fc00000"

definition double_fill :: "bool \<Rightarrow> byte list" where
  "double_fill le = host_bytes le 8 0x7ff8000000000000"

text \<open>digital\_rf\_is\_little\_endian looks at the first byte of the \<open>uint32_t\<close> \<open>0x01234567\<close>.\<close>

definition digital_rf_is_little_endian :: "bool \<Rightarrow> bool" where
  "digital_rf_is_little_endian le \<longleftrightarrow> hd (host_bytes le 4 0x01234567) = 0x67"

definition endian_flip :: "bool \<Rightarrow> h5t_order \<Rightarrow> nat" where
  "endian_flip le write_endian =
     (if digital_rf_is_little_endian le \<and> write_endian = H5T_ORDER_BE then 1
      else if \<not> digital_rf_is_little_endian le \<and> write_endian = H5T_ORDER_LE then 1
      else 0)"

text \<open>
  The arrays \<open>minShort\<close>, \<open>minInt\<close> and \<open>minLLong\<close> hold the minimum and 128, its
  byte-swapped form; a complex fill is a struct of two fields \<open>r\<close> and \<open>i\<close>. The first
  argument is the byte order of the host, the third is \<open>is_complex \<noteq> 0\<close>.
\<close>

definition min_int_pair :: "nat \<Rightarrow> nat \<Rightarrow> int" where
  "min_int_pair width k = (if k = 0 then - (2 ^ (8 * width - 1)) else 128)"

definition digital_rf_set_fill_value :: "bool \<Rightarrow> h5_dtype \<Rightarrow> bool \<Rightarrow> error + fill" where
  "digital_rf_set_fill_value le dtype_id is_complex =
   (let minUnsignedInt = host_bytes le 4 0;
        minChar = host_bytes le 1 (- 128);
        complex_char_fill = minChar @ minChar;
        complex_uchar_fill = host_bytes le 1 0 @ host_bytes le 1 0;
        minShort = (\<lambda>k. host_bytes le 2 (min_int_pair 2 k));
        complex_short_fill = (\<lambda>k. minShort k @ minShort k);
        complex_ushort_fill = host_bytes le 2 0 @ host_bytes le 2 0;
        minInt = (\<lambda>k. host_bytes le 4 (min_int_pair 4 k));
        complex_int_fill = (\<lambda>k. minInt k @ minInt k);
        complex_uint_fill = host_bytes le 4 0 @ host_bytes le 4 0;
        minLLong = (\<lambda>k. host_bytes le 8 (min_int_pair 8 k));
        complex_long_fill = (\<lambda>k. minLLong k @ minLLong k);
        complex_ulong_fill = host_bytes le 8 0 @ host_bytes le 8 0;
        complex_float_fill = float_fill le @ float_fill le;
        complex_double_fill = double_fill le @ double_fill le;
        flip = endian_flip le (dtype_order dtype_id);
        classType = dtype_class dtype_id;
        signType = dtype_sign dtype_id;
        numBytes = dtype_size dtype_id
    in
    if classType = H5T_FLOAT \<and> \<not> is_complex
    then Inr (H5Pset_fill_value numBytes (double_fill le))
    else if classType = H5T_FLOAT \<and> is_complex \<and> numBytes = 4
    then Inr (H5Pset_fill_value (2 * numBytes) complex_float_fill)
    else if classType = H5T_FLOAT \<and> is_complex \<and> numBytes = 8
    then Inr (H5Pset_fill_value (2 * numBytes) complex_double_fill)
    else if classType = H5T_INTEGER then
      if \<not> is_complex then
        if signType = H5T_SGN_NONE then Inr (H5Pset_fill_value numBytes minUnsignedInt)
        else if numBytes = 1 then Inr (H5Pset_fill_value numBytes minChar)
        else if numBytes = 2 then Inr (H5Pset_fill_value numBytes (minShort flip))
        else if numBytes = 4 then Inr (H5Pset_fill_value numBytes (minInt flip))
        else if numBytes = 8 then Inr (H5Pset_fill_value numBytes (minLLong flip))
        else Inl UnexpectedIntegerSize
      else
        if numBytes = 1 then
          (if signType = H5T_SGN_NONE then Inr (H5Pset_fill_value (2 * numBytes) complex_uchar_fill)
           else Inr (H5Pset_fill_value (2 * numBytes) complex_char_fill))
        else if numBytes = 2 then
          (if signType = H5T_SGN_NONE then Inr (H5Pset_fill_value (2 * numBytes) complex_ushort_fill)
           else Inr (H5Pset_fill_value (2 * numBytes) (complex_short_fill flip)))
        else if numBytes = 4 then
          (if signType = H5T_SGN_NONE then Inr (H5Pset_fill_value (2 * numBytes) complex_uint_fill)
           else Inr (H5Pset_fill_value (2 * numBytes) (complex_int_fill flip)))
        else if numBytes = 8 then
          (if signType = H5T_SGN_NONE then Inr (H5Pset_fill_value (2 * numBytes) complex_ulong_fill)
           else Inr (H5Pset_fill_value (2 * numBytes) (complex_long_fill flip)))
        else Inl UnexpectedIntegerSize
    else Inl NotIntegerNorFloat)"

text \<open>
  Reading the bytes of a fill value as HDF5 does, in the byte order of the type: as an
  unsigned or a two's complement integer, or as an IEEE-754 bit pattern, which is a quiet
  NaN when the exponent bits are all 1 and the first bit of the fraction is 1.
\<close>

fun le_value :: "byte list \<Rightarrow> int" where
  "le_value [] = 0"
| "le_value (b # bs) = uint b + 256 * le_value bs"

definition unsigned_value :: "h5t_order \<Rightarrow> byte list \<Rightarrow> int" where
  "unsigned_value order bs = (if order = H5T_ORDER_BE then le_value (rev bs) else le_value bs)"

definition signed_value :: "h5t_order \<Rightarrow> byte list \<Rightarrow> int" where
  "signed_value order bs =
     (let u = unsigned_value order bs
      in if 2 ^ (8 * length bs - 1) \<le> u then u - 2 ^ (8 * length bs) else u)"

definition is_quiet_nan :: "h5t_order \<Rightarrow> byte list \<Rightarrow> bool" where
  "is_quiet_nan order bs =
     (let bits = unsigned_value order bs
      in if length bs = 4 then (bits div 2 ^ 23) mod 256 = 255 \<and> (bits div 2 ^ 22) mod 2 = 1
         else if length bs = 8 then (bits div 2 ^ 52) mod 2048 = 2047 \<and> (bits div 2 ^ 51) mod 2 = 1
         else False)"

subsection \<open>A platform with IEEE-754 doubles\<close>

text \<open>
  The doubles of an IEEE-754 platform, each finite double given by its exact value, a
  rational. \<open>rne\<close> rounds a rational to the nearest number with a 53-bit significand, ties
  to the even significand, which is what the conversion of an integer to \<open>double\<close>,
  \<open>/\<close> and \<open>*\<close> do to their exact results. The exponent is not bounded here: overflow,
  subnormal numbers, infinities and NaN (so division by zero) are outside this model.
  \<open>binade x\<close> is the exponent \<open>e\<close> with \<open>2 ^ e \<le> x < 2 ^ (e + 1)\<close>, searched over 1100
  steps up or down from 0.
\<close>

definition pow2 :: "int \<Rightarrow> rat" where
  "pow2 k = (if 0 \<le> k then 2 ^ nat k else 1 / 2 ^ nat (- k))"

fun binade_up :: "nat \<Rightarrow> rat \<Rightarrow> int" where
  "binade_up 0 x = 0"
| "binade_up (Suc n) x = (if 2 \<le> x then binade_up n (x / 2) + 1 else 0)"

fun binade_down :: "nat \<Rightarrow> rat \<Rightarrow> int" where
  "binade_down 0 x = 0"
| "binade_down (Suc n) x = (if x < 1 then binade_down n (x * 2) - 1 else 0)"

definition binade :: "rat \<Rightarrow> int" where
  "binade x = (if 1 \<le> x then binade_up 1100 x else binade_down 1100 x)"

definition rne :: "rat \<Rightarrow> rat" where
  "rne x =
     (if x = 0 then 0
      else let a = \<bar>x\<bar>;
               u = pow2 (binade a - 52);
               q = a / u;
               n = \<lfloor>q\<rfloor>;
               r = q - of_int n;
               m = (if r < 1 / 2 then n else if 1 / 2 < r then n + 1
                    else if even n then n else n + 1)
           in sgn x * of_int m * u)"

text \<open>
  Conversion of a double to an integer type discards the fraction; \<open>fmod\<close> is exact;
  \<open>round\<close> rounds halfway cases away from zero.
\<close>

definition truncate_rat :: "rat \<Rightarrow> int" where
  "truncate_rat x = (if 0 \<le> x then \<lfloor>x\<rfloor> else - \<lfloor>- x\<rfloor>)"

definition round_rat :: "rat \<Rightarrow> rat" where
  "round_rat x = (if 0 \<le> x then of_int \<lfloor>x + 1 / 2\<rfloor> else - of_int \<lfloor>- x + 1 / 2\<rfloor>)"

definition ieee_lib :: "(u64 \<Rightarrow> tm option) \<Rightarrow> (rat \<Rightarrow> string) \<Rightarrow> rat c_lib" where
  "ieee_lib gm pr =
     \<lparr>double_of_u64 = (\<lambda>x. rne (of_int (uint x))),
      u64_of_double = (\<lambda>x. word_of_int (truncate_rat x)),
      time_of_double = (\<lambda>x. word_of_int (truncate_rat x)),
      ddiv = (\<lambda>a b. rne (a / b)),
      dmul = (\<lambda>a b. rne (a * b)),
      dfmod = (\<lambda>a b. a - b * of_int (truncate_rat (a / b))),
      dround = round_rat,
      deq = (\<lambda>a b. a = b),
      d_0 = 0,
      d_1 = 1,
      d_1e12 = 1000000000000,
      gmtime = gm,
      sprintf_011_3f = pr,
      mkdir_ok = (\<lambda>name. True),
      H5Fcreate_ok = (\<lambda>name. True),
      H5Dwrite_ok = (\<lambda>h off. True),
      index_write_ok = (\<lambda>h row. True)\<rparr>"

subsection \<open>The writer between two slices\<close>

text \<open>
  What holds of the writer object whenever digital\_rf\_write\_samples\_to\_file is
  entered (it holds after digital\_rf\_create\_write\_hdf5, and every slice that succeeds
  keeps it): \<open>samples_per_file\<close> is not zero; with no file open the next row to write is
  row 0 and no index dataset is open; with a file open its handle is valid, the file is
  not full, and \<open>dataset_avail\<close> is the room left in it.
\<close>

definition writer_ok :: "('a, 'd) writer \<Rightarrow> bool" where
  "writer_ok st \<longleftrightarrow>
     0 < samples_per_file st \<and>
     (if hdf5_file st = 0 then dataset_index st = 0 \<and> \<not> index_dataset st
      else hdf5_file st \<le> length (fs_files st) \<and>
           dataset_index st < samples_per_file st \<and>
           dataset_avail st = samples_per_file st - dataset_index st)"

subsection \<open>The rows of a slice, described directly\<close>

text \<open>
  For stating what digital\_rf\_create\_rf\_data\_index returns: \<open>index_emitted\<close> holds of
  the positions of the index arrays whose pair is counted as a row by both passes,
  \<open>rows_upto st sw g d i\<close> is the content of the row array after the second pass has
  handled the positions below \<open>i\<close>, and \<open>indices_valid\<close> is what the checks of the first
  pass accept.
\<close>


definition index_emitted :: "('a, 'd) writer \<Rightarrow> u64 \<Rightarrow> (nat \<Rightarrow> u64) \<Rightarrow> (nat \<Rightarrow> u64) \<Rightarrow> nat \<Rightarrow> bool" where
  "index_emitted st sw g d i \<longleftrightarrow>
     index_in_file st sw (d i) \<and> \<not> index_ignored st sw (d i) (g i)"

definition emitted_indices :: "('a, 'd) writer \<Rightarrow> u64 \<Rightarrow> (nat \<Rightarrow> u64) \<Rightarrow> (nat \<Rightarrow> u64) \<Rightarrow> nat \<Rightarrow> nat list" where
  "emitted_indices st sw g d n = filter (index_emitted st sw g d) [0..<n]"

definition rows_upto :: "('a, 'd) writer \<Rightarrow> u64 \<Rightarrow> (nat \<Rightarrow> u64) \<Rightarrow> (nat \<Rightarrow> u64) \<Rightarrow> nat \<Rightarrow> (u64 \<times> u64) list" where
  "rows_upto st sw g d i =
     (let E = emitted_indices st sw g d i in
      if E = [] then []
      else (if d (hd E) = sw then [] else [boundary_row st])
           @ map (\<lambda>j. index_row st sw (g j) (d j)) E)"

definition indices_valid :: "(nat \<Rightarrow> u64) \<Rightarrow> (nat \<Rightarrow> u64) \<Rightarrow> nat \<Rightarrow> bool" where
  "indices_valid g d n \<longleftrightarrow>
     (\<forall>j. 0 < j \<and> j < n \<longrightarrow> d (j - 1) < d j \<and> d j - d (j - 1) \<le> g j - g (j - 1))"


subsection \<open>The errors for malformed index arrays\<close>

text \<open>
  The three error exits that reject the index arrays of a call: a first data index that
  is not 0, data indices out of order, and data indices advancing faster than the global
  indices.
\<close>


fun index_malformed :: "error \<Rightarrow> bool" where
  "index_malformed IllegalFirstValue = True"
| "index_malformed (IndicesOutOfOrder i) = True"
| "index_malformed (IndicesAdvancingFaster i) = True"
| "index_malformed e = False"


subsection \<open>The cursor during a call\<close>



subsection \<open>A small channel for worked examples\<close>

text \<open>
  \<open>demo_lib\<close> is a platform on which every call succeeds; its doubles are a fixed-point
  stand-in, integers counting thousandths, which is exact on the values used
  below. \<open>demo_writer\<close> is the writer object as digital\_rf\_create\_write\_hdf5 returns it
  for 4 samples per file, 2 files per directory, start sample 1000 and 1 Hz.
\<close>

definition demo_gmtime :: "u64 \<Rightarrow> tm option" where
  "demo_gmtime t =
     Some \<lparr>tm_year = 70, tm_mon = 0, tm_mday = 1, tm_hour = 0,
           tm_min = uint t div 60, tm_sec = uint t mod 60\<rparr>"

definition demo_sprintf :: "int \<Rightarrow> string" where
  "demo_sprintf x = sprintf_0i 7 (x div 1000) @ ''.'' @ sprintf_0i 3 (x mod 1000)"

definition demo_lib :: "int c_lib" where
  "demo_lib =
     \<lparr>double_of_u64 = (\<lambda>x. 1000 * uint x),
      u64_of_double = (\<lambda>x. word_of_int (x div 1000)),
      time_of_double = (\<lambda>x. word_of_int (x div 1000)),
      ddiv = (\<lambda>a b. (a * 1000) div b),
      dmul = (\<lambda>a b. (a * b) div 1000),
      dfmod = (\<lambda>a b. a mod b),
      dround = (\<lambda>x. ((x + 500) div 1000) * 1000),
      deq = (\<lambda>a b. a = b),
      d_0 = 0,
      d_1 = 1000,
      d_1e12 = 1000000000000000,
      gmtime = demo_gmtime,
      sprintf_011_3f = demo_sprintf,
      mkdir_ok = (\<lambda>name. True),
      H5Fcreate_ok = (\<lambda>name. True),
      H5Dwrite_ok = (\<lambda>h off. True),
      index_write_ok = (\<lambda>h row. True)\<rparr>"

definition demo_writer :: "(nat, int) writer" where
  "demo_writer =
     \<lparr>directory = ''/data/ch0/'', sub_directory = None,
      samples_per_file = 4, files_per_directory = 2, global_start_sample = 1000,
      sample_rate = 1000, needs_chunking = False, chunk_size = 0,
      global_index = 0, present_seq = -1, dataset_index = 0, dataset_avail = 0,
      hdf5_file = 0, index_dataset = False, next_index_avail = 0,
      fs_dirs = [], fs_files = []\<rparr>"

text \<open>The data vector of the examples: sample \<open>i\<close> has the value \<open>i\<close>.\<close>

definition demo_vector :: "nat \<Rightarrow> nat" where
  "demo_vector i = i"

declare write_loop.simps [code]

text \<open>
  The writer in the middle of its first file: \<open>demo_writer\<close> after one call of
  digital\_rf\_write\_hdf5 that wrote the two samples 0 and 1.
\<close>

definition demo_writer_mid :: "(nat, int) writer" where
  "demo_writer_mid = snd (the (digital_rf_write_hdf5 demo_lib demo_writer 0 (Some demo_vector) 2))"

section \<open>Properties of the writer\<close>

subsection \<open>Index arrays with a single entry\<close>


lemma count_index_rows_one:
  "count_index_rows st sw g d (Suc 0) 0 l f c =
     Inr (f \<or> d 0 = sw,
          if index_in_file st sw (d 0) \<and> \<not> index_ignored st sw (d 0) (g 0) then Suc c else c)"
  by (simp add: count_index_rows.simps [of _ _ _ _ _ 0] count_index_rows.simps [of _ _ _ _ _ "Suc 0"] Let_def)

lemma fill_index_rows_one:
  "fill_index_rows st sw g d (Suc 0) 0 r 0 =
     (if index_ignored st sw (d 0) (g 0) then Inr (r, 0)
      else if index_in_file st sw (d 0) then
        if d 0 = sw then (case store_row r 0 (index_row st sw (g 0) (d 0)) of Inl e \<Rightarrow> Inl e | Inr r1 \<Rightarrow> Inr (r1, Suc 0))
        else Inl AssertionFailed
      else Inr (r, 0))"
  by (simp add: fill_index_rows.simps [of _ _ _ _ _ 0] fill_index_rows.simps [of _ _ _ _ _ "Suc 0"] Let_def split: sum.splits)

lemma create_index_one_cong:
  assumes "g 0 = g' 0" "d 0 = d' 0"
  shows "digital_rf_create_rf_data_index st sw g d 1 = digital_rf_create_rf_data_index st sw g' d' 1"
  using assms by (simp add: digital_rf_create_rf_data_index_def count_index_rows_one fill_index_rows_one)

lemma get_global_sample_one:
  "digital_rf_get_global_sample sw g d (Suc 0) = g 0 + (sw - d 0)"
  by (simp add: digital_rf_get_global_sample_def global_sample_loop.simps [of _ _ _ _ "Suc 0"])

lemma write_samples_one_cong:
  assumes "g 0 = g' 0" "d 0 = d' 0"
  shows "digital_rf_write_samples_to_file lib st sw g d 1 v vl = digital_rf_write_samples_to_file lib st sw g' d' 1 v vl"
proof -
  have a: "digital_rf_create_rf_data_index st sw g d 1 = digital_rf_create_rf_data_index st sw g' d' 1"
    using assms by (rule create_index_one_cong)
  have b: "digital_rf_get_global_sample sw g d 1 = digital_rf_get_global_sample sw g' d' 1"
    using assms by (simp add: get_global_sample_one)
  show ?thesis
    unfolding digital_rf_write_samples_to_file_def a b assms(2) ..
qed

lemma samples_written_le:
  assumes "digital_rf_write_samples_to_file lib st sw g d n v vl = (Inr k, st')"
  shows "k \<le> vl - sw"
  using assms
  by (auto simp: digital_rf_write_samples_to_file_def advance_state_def samples_to_write_of_def Let_def
           split: if_splits sum.splits prod.splits)

lemma loop_measure:
  fixes sw vl k :: u64
  assumes "sw < vl" "k \<le> vl - sw" "k \<noteq> 0"
  shows "unat (vl - (sw + k)) < unat (vl - sw)"
proof -
  have e: "vl - (sw + k) = (vl - sw) - k" by simp
  have "unat ((vl - sw) - k) = unat (vl - sw) - unat k"
    using assms(2) by (simp add: unat_sub)
  moreover have "0 < unat k" using assms(3) by (simp add: unat_gt_0)
  moreover have "unat k \<le> unat (vl - sw)" using assms(2) by (simp add: word_le_nat_alt)
  ultimately show ?thesis unfolding e by linarith
qed

lemma write_loop_one_cong:
  assumes "g 0 = g' 0" "d 0 = d' 0"
  shows "write_loop lib st sw g d 1 v vl = write_loop lib st sw g' d' 1 v vl"
proof (induction "unat (vl - sw)" arbitrary: st sw rule: less_induct)
  case less
  show ?case
  proof (cases "sw < vl")
    case False
    then show ?thesis by (simp add: write_loop.simps [of _ _ sw])
  next
    case True
    obtain r st1 where r: "digital_rf_write_samples_to_file lib st sw g d 1 v vl = (r, st1)"
      by (cases "digital_rf_write_samples_to_file lib st sw g d 1 v vl")
    then have r': "digital_rf_write_samples_to_file lib st sw g' d' 1 v vl = (r, st1)"
      using write_samples_one_cong [of g g' d d' lib st sw v vl] assms by simp
    show ?thesis
    proof (cases r)
      case (Inl e)
      then show ?thesis using True r r' by (simp add: write_loop.simps [of _ _ sw])
    next
      case (Inr k)
      show ?thesis
      proof (cases "k = 0")
        case True
        then show ?thesis using \<open>sw < vl\<close> r r' Inr by (simp add: write_loop.simps [of _ _ sw])
      next
        case False
        have "k \<le> vl - sw" using samples_written_le r Inr by blast
        then have "unat (vl - (sw + k)) < unat (vl - sw)"
          using loop_measure True False by blast
        then have "write_loop lib st1 (sw + k) g d 1 v vl = write_loop lib st1 (sw + k) g' d' 1 v vl"
          using less by blast
        then show ?thesis using \<open>sw < vl\<close> r r' Inr False by (simp add: write_loop.simps [of _ _ sw])
      qed
    qed
  qed
qed

subsection \<open>Opening a file, writing the index, advancing the state\<close>


lemma create_new_directory_fields:
  assumes "digital_rf_create_new_directory lib st nx = (r, st')"
  shows "samples_per_file st' = samples_per_file st \<and> dataset_index st' = dataset_index st
       \<and> dataset_avail st' = dataset_avail st \<and> hdf5_file st' = hdf5_file st
       \<and> index_dataset st' = index_dataset st \<and> global_index st' = global_index st
       \<and> global_start_sample st' = global_start_sample st \<and> fs_files st' = fs_files st
       \<and> present_seq st' = present_seq st \<and> files_per_directory st' = files_per_directory st
       \<and> next_index_avail st' = next_index_avail st"
  using assms
  by (auto simp: digital_rf_create_new_directory_def Let_def split: sum.splits if_splits prod.splits)

lemma create_hdf5_file_ok:
  assumes "digital_rf_create_hdf5_file lib st nx = (Inr u, st')"
  shows "hdf5_file st' = Suc (length (fs_files st)) \<and> length (fs_files st') = Suc (length (fs_files st))
       \<and> dataset_index st' = 0 \<and> dataset_avail st' = samples_per_file st
       \<and> samples_per_file st' = samples_per_file st \<and> index_dataset st' = index_dataset st
       \<and> global_index st' = global_index st \<and> global_start_sample st' = global_start_sample st
       \<and> next_index_avail st' = next_index_avail st
       \<and> present_seq st' = present_seq st + 1
       \<and> rf_data_index (last (fs_files st')) = [] \<and> butlast (fs_files st') = fs_files st"
proof -
  let ?st1 = "st\<lparr>present_seq := present_seq st + 1\<rparr>"
  obtain r2 st2 where d: "(if (word_of_int (present_seq ?st1) :: u64) mod files_per_directory ?st1 = 0
               then digital_rf_create_new_directory lib ?st1 nx
               else (Inr (), ?st1)) = (r2, st2)"
    by (cases "(if (word_of_int (present_seq ?st1) :: u64) mod files_per_directory ?st1 = 0
               then digital_rf_create_new_directory lib ?st1 nx
               else (Inr (), ?st1))")
  have f: "samples_per_file st2 = samples_per_file st \<and> dataset_index st2 = dataset_index st
       \<and> dataset_avail st2 = dataset_avail st \<and> hdf5_file st2 = hdf5_file st
       \<and> index_dataset st2 = index_dataset st \<and> global_index st2 = global_index st
       \<and> global_start_sample st2 = global_start_sample st \<and> fs_files st2 = fs_files st
       \<and> present_seq st2 = present_seq st + 1 \<and> next_index_avail st2 = next_index_avail st"
    using d create_new_directory_fields [of lib ?st1 nx r2 st2]
    by (auto split: if_splits)
  show ?thesis
    using assms d f
    by (auto simp: digital_rf_create_hdf5_file_def Let_def split: if_splits sum.splits option.splits)
qed


lemma length_h5_file_update [simp]: "length (h5_file_update h f files) = length files"
  by (simp add: h5_file_update_def)

lemma nth_h5_file_update:
  "0 < h \<Longrightarrow> h \<le> length files \<Longrightarrow>
   h5_file_update h f files ! i = (if i = h - 1 then f (files ! i) else files ! i)"
  by (auto simp: h5_file_update_def)

lemma write_rf_data_index_fields:
  assumes "digital_rf_write_rf_data_index lib st rows = (r, st')"
  shows "samples_per_file st' = samples_per_file st \<and> dataset_index st' = dataset_index st
       \<and> dataset_avail st' = dataset_avail st \<and> hdf5_file st' = hdf5_file st
       \<and> index_dataset st' \<and> global_index st' = global_index st
       \<and> global_start_sample st' = global_start_sample st
       \<and> length (fs_files st') = length (fs_files st)
       \<and> present_seq st' = present_seq st"
  using assms
  by (auto simp: digital_rf_write_rf_data_index_def Let_def split: if_splits)

lemma write_rf_data_index_new:
  assumes "digital_rf_write_rf_data_index lib st rows = (Inr u, st')"
    and "\<not> index_dataset st" and "0 < hdf5_file st" and "hdf5_file st \<le> length (fs_files st)"
  shows "rf_data_index (fs_files st' ! (hdf5_file st - 1)) = rows"
  using assms
  by (auto simp: digital_rf_write_rf_data_index_def Let_def nth_h5_file_update h5_write_rows_def
           split: if_splits)

lemma advance_state_ok:
  assumes "advance_state st rows tw = (Inr k, st')"
  shows "k = tw \<and> dataset_index st + tw \<le> samples_per_file st
       \<and> global_index st' = advance_global_index st rows tw
       \<and> samples_per_file st' = samples_per_file st
       \<and> global_start_sample st' = global_start_sample st
       \<and> present_seq st' = present_seq st
       \<and> dataset_avail st' = dataset_avail st - tw
       \<and> fs_files st' = fs_files st
       \<and> (if dataset_index st + tw = samples_per_file st
           then hdf5_file st' = 0 \<and> dataset_index st' = 0 \<and> \<not> index_dataset st'
           else hdf5_file st' = hdf5_file st \<and> dataset_index st' = dataset_index st + tw
                \<and> index_dataset st' = index_dataset st)"
  using assms
  by (auto simp: advance_state_def Let_def close_full_file_def split: if_splits)

lemma write_samples_success:
  assumes "digital_rf_write_samples_to_file lib st sw g d n v vl = (Inr k, st')"
  obtains rows st1 st3 where
    "1 \<le> n" and "d 0 = 0"
    and "digital_rf_create_rf_data_index st sw g d n = Inr rows"
    and "open_file_if_needed lib st (digital_rf_get_global_sample sw g d n) = (Inr (), st1)"
    and "k = samples_to_write_of st1 vl sw"
    and "(if 0 < length rows
          then digital_rf_write_rf_data_index lib (h5_write_rf_data st1 sw k v) rows
          else (Inr (), h5_write_rf_data st1 sw k v)) = (Inr (), st3)"
    and "advance_state st3 rows k = (Inr k, st')"
proof -
  from assms have n: "1 \<le> n" and d0: "d 0 = 0"
    by (auto simp: digital_rf_write_samples_to_file_def split: if_splits)
  from assms n d0 obtain rows where rows: "digital_rf_create_rf_data_index st sw g d n = Inr rows"
    by (cases "digital_rf_create_rf_data_index st sw g d n")
       (auto simp: digital_rf_write_samples_to_file_def)
  obtain r1 st1 where o: "open_file_if_needed lib st (digital_rf_get_global_sample sw g d n) = (r1, st1)"
    by (cases "open_file_if_needed lib st (digital_rf_get_global_sample sw g d n)")
  from assms n d0 rows o have r1: "r1 = Inr ()"
    by (cases r1) (auto simp: digital_rf_write_samples_to_file_def)
  define tw where "tw = samples_to_write_of st1 vl sw"
  obtain r3 st3 where w: "(if 0 < length rows
          then digital_rf_write_rf_data_index lib (h5_write_rf_data st1 sw tw v) rows
          else (Inr (), h5_write_rf_data st1 sw tw v)) = (r3, st3)"
    by (cases "(if 0 < length rows
          then digital_rf_write_rf_data_index lib (h5_write_rf_data st1 sw tw v) rows
          else (Inr (), h5_write_rf_data st1 sw tw v))")
  have eq: "digital_rf_write_samples_to_file lib st sw g d n v vl =
      (if \<not> H5Dwrite_ok lib (hdf5_file st1) (dataset_index st1) then (Inl H5DwriteFailed, st1)
       else (case r3 of Inl e \<Rightarrow> (Inl e, st3) | Inr u \<Rightarrow> advance_state st3 rows tw))"
  proof (cases "rows = []")
    case True
    with w have "r3 = Inr ()" "st3 = h5_write_rf_data st1 sw tw v" by auto
    then show ?thesis
      using n d0 True
      by (simp add: digital_rf_write_samples_to_file_def rows o r1 Let_def tw_def)
  next
    case False
    with w have "digital_rf_write_rf_data_index lib (h5_write_rf_data st1 sw tw v) rows = (r3, st3)"
      by simp
    then show ?thesis
      using n d0 False
      by (simp add: digital_rf_write_samples_to_file_def rows o r1 Let_def tw_def split: sum.splits)
  qed
  have hw: "H5Dwrite_ok lib (hdf5_file st1) (dataset_index st1)"
    using assms unfolding eq by (auto split: if_splits)
  have r3: "r3 = Inr ()"
    using assms hw unfolding eq by (cases r3) auto
  have adv: "advance_state st3 rows tw = (Inr k, st')"
    using assms hw r3 unfolding eq by simp
  then have k: "k = tw" using advance_state_ok by blast
  show ?thesis
  proof (rule that [of rows st1 st3])
    show "1 \<le> n" "d 0 = 0" by fact+
    show "digital_rf_create_rf_data_index st sw g d n = Inr rows" by fact
    show "open_file_if_needed lib st (digital_rf_get_global_sample sw g d n) = (Inr (), st1)"
      using o r1 by simp
    show "k = samples_to_write_of st1 vl sw" using k tw_def by simp
    show "(if 0 < length rows
          then digital_rf_write_rf_data_index lib (h5_write_rf_data st1 sw k v) rows
          else (Inr (), h5_write_rf_data st1 sw k v)) = (Inr (), st3)"
      using w r3 unfolding k by simp
    show "advance_state st3 rows k = (Inr k, st')" using adv unfolding k .
  qed
qed

subsection \<open>Progress of a slice and termination of the loop\<close>


lemma open_file_if_needed_ok:
  assumes ok: "writer_ok st"
    and o: "open_file_if_needed lib st nx = (Inr (), st1)"
  shows "hdf5_file st1 \<noteq> 0 \<and> hdf5_file st1 \<le> length (fs_files st1)
      \<and> samples_per_file st1 = samples_per_file st
      \<and> dataset_index st1 = dataset_index st
      \<and> dataset_index st1 < samples_per_file st1
      \<and> dataset_avail st1 = samples_per_file st1 - dataset_index st1
      \<and> global_index st1 = global_index st \<and> global_start_sample st1 = global_start_sample st
      \<and> dataset_avail st1 = (if hdf5_file st = 0 then samples_per_file st else dataset_avail st)
      \<and> (hdf5_file st = 0 \<longrightarrow> \<not> index_dataset st1)
      \<and> (hdf5_file st \<noteq> 0 \<longrightarrow> st1 = st)"
proof (cases "hdf5_file st = 0")
  case True
  then have c: "digital_rf_create_hdf5_file lib st nx = (Inr (), st1)"
    using o by (simp add: open_file_if_needed_def)
  show ?thesis
    using create_hdf5_file_ok [OF c] ok True by (simp add: writer_ok_def)
next
  case False
  then have "st1 = st" using o by (simp add: open_file_if_needed_def)
  then show ?thesis using ok False by (simp add: writer_ok_def)
qed

lemma word_sub_pos:
  fixes a b :: u64
  assumes "a < b"
  shows "1 \<le> b - a"
proof -
  have "b - a \<noteq> 0" using assms by simp
  then show ?thesis by (simp add: word_le_nat_alt unat_gt_0 Suc_le_eq)
qed

lemma samples_to_write_of_min:
  "samples_to_write_of st vl sw = min (vl - sw) (dataset_avail st)"
  by (auto simp: samples_to_write_of_def Let_def min_def)

lemma word_add_le_sub:
  fixes sw vl k :: u64
  assumes "sw < vl" "k \<le> vl - sw"
  shows "sw + k \<le> vl" "unat (sw + k) = unat sw + unat k"
proof -
  have a: "unat k \<le> unat (vl - sw)" using assms(2) by (simp add: word_le_nat_alt)
  have b: "unat (vl - sw) = unat vl - unat sw"
    using assms(1) by (simp add: unat_sub word_less_nat_alt word_le_nat_alt)
  have c: "unat sw < unat vl" using assms(1) by (simp add: word_less_nat_alt)
  have d: "unat sw + unat k \<le> unat vl" using a b c by linarith
  have "unat vl < 2 ^ 64" using unsigned_less [of vl, where 'a = nat] by simp
  then have e: "unat sw + unat k < 2 ^ 64" using d by linarith
  then show f: "unat (sw + k) = unat sw + unat k"
    by (simp add: unat_add_lem [THEN iffD1])
  show "sw + k \<le> vl" using d f by (simp add: word_le_nat_alt)
qed

lemma write_samples_progress:
  assumes ok: "writer_ok st" and lt: "sw < vl"
    and r: "digital_rf_write_samples_to_file lib st sw g d n v vl = (Inr k, st')"
  shows "k = min (vl - sw) (if hdf5_file st = 0 then samples_per_file st else dataset_avail st)"
    and "1 \<le> k" and "sw < sw + k" and "sw + k \<le> vl" and "writer_ok st'"
    and "sw + k < vl \<Longrightarrow> hdf5_file st' = 0"
proof -
  from r obtain rows st1 st3 where
    o: "open_file_if_needed lib st (digital_rf_get_global_sample sw g d n) = (Inr (), st1)"
    and k: "k = samples_to_write_of st1 vl sw"
    and w: "(if 0 < length rows
          then digital_rf_write_rf_data_index lib (h5_write_rf_data st1 sw k v) rows
          else (Inr (), h5_write_rf_data st1 sw k v)) = (Inr (), st3)"
    and adv: "advance_state st3 rows k = (Inr k, st')"
    by (rule write_samples_success)
  have o1: "hdf5_file st1 \<noteq> 0" "hdf5_file st1 \<le> length (fs_files st1)"
      "samples_per_file st1 = samples_per_file st"
      "dataset_index st1 = dataset_index st"
      "dataset_index st1 < samples_per_file st1"
      "dataset_avail st1 = samples_per_file st1 - dataset_index st1"
      "dataset_avail st1 = (if hdf5_file st = 0 then samples_per_file st else dataset_avail st)"
    using open_file_if_needed_ok [OF ok o] by blast+
  show kmin: "k = min (vl - sw) (if hdf5_file st = 0 then samples_per_file st else dataset_avail st)"
    using k o1(7) by (simp add: samples_to_write_of_min)
  have "dataset_index st1 < samples_per_file st1" using o1 by simp
  then have "1 \<le> samples_per_file st1 - dataset_index st1" by (rule word_sub_pos)
  then have av: "1 \<le> dataset_avail st1" using o1(6) by simp
  have "1 \<le> vl - sw" using lt by (rule word_sub_pos)
  then show k1: "1 \<le> k" using av k by (simp add: samples_to_write_of_min)
  have kle: "k \<le> vl - sw" using k by (simp add: samples_to_write_of_min)
  show le: "sw + k \<le> vl" using word_add_le_sub(1) [OF lt kle] .
  have "0 < unat k" using k1 by (simp add: word_le_nat_alt)
  then show "sw < sw + k"
    using word_add_le_sub(2) [OF lt kle] by (simp add: word_less_nat_alt)
  have st3: "samples_per_file st3 = samples_per_file st1 \<and> dataset_index st3 = dataset_index st1
       \<and> dataset_avail st3 = dataset_avail st1 \<and> hdf5_file st3 = hdf5_file st1
       \<and> length (fs_files st3) = length (fs_files st1)"
    using w write_rf_data_index_fields [of lib "h5_write_rf_data st1 sw k v" rows "Inr ()" st3]
    by (auto simp: h5_write_rf_data_def split: if_splits)
  note a = advance_state_ok [OF adv]
  have kav: "k \<le> dataset_avail st1" using k by (simp add: samples_to_write_of_min)
  have sub: "dataset_avail st1 - k = samples_per_file st1 - (dataset_index st1 + k)"
    using o1(6) by simp
  show "writer_ok st'"
  proof (cases "dataset_index st3 + k = samples_per_file st3")
    case True
    then show ?thesis using a st3 o1(3) ok by (simp add: writer_ok_def)
  next
    case False
    then have "dataset_index st3 + k < samples_per_file st3" using a by (simp add: order_less_le)
    then show ?thesis using a st3 o1(1,2,3,6) ok False sub by (simp add: writer_ok_def)
  qed
  show "hdf5_file st' = 0" if "sw + k < vl"
  proof -
    have "k \<noteq> vl - sw" using that by auto
    then have "k = dataset_avail st1" using k by (auto simp: samples_to_write_of_min min_def)
    then have "dataset_index st3 + k = samples_per_file st3"
      using st3 o1(6) by simp
    then show ?thesis using a by simp
  qed
qed

lemma write_loop_total: "\<exists>r. write_loop lib st sw g d n v vl = Some r"
proof (induction "unat (vl - sw)" arbitrary: st sw rule: less_induct)
  case less
  show ?case
  proof (cases "sw < vl")
    case False
    then show ?thesis by (simp add: write_loop.simps [of _ _ sw])
  next
    case True
    obtain r st1 where r: "digital_rf_write_samples_to_file lib st sw g d n v vl = (r, st1)"
      by (cases "digital_rf_write_samples_to_file lib st sw g d n v vl")
    show ?thesis
    proof (cases r)
      case (Inl e)
      then show ?thesis using True r by (simp add: write_loop.simps [of _ _ sw])
    next
      case (Inr k)
      show ?thesis
      proof (cases "k = 0")
        case True
        then show ?thesis using \<open>sw < vl\<close> r Inr by (simp add: write_loop.simps [of _ _ sw])
      next
        case False
        have "k \<le> vl - sw" using samples_written_le r Inr by blast
        then have "unat (vl - (sw + k)) < unat (vl - sw)"
          using loop_measure True False by blast
        then have "\<exists>r. write_loop lib st1 (sw + k) g d n v vl = Some r"
          using less by blast
        then show ?thesis using \<open>sw < vl\<close> r Inr False by (simp add: write_loop.simps [of _ _ sw])
      qed
    qed
  qed
qed

lemma write_blocks_total: "\<exists>r. digital_rf_write_blocks_hdf5 lib st g d n vector vl = Some r"
  using write_loop_total by (auto simp: digital_rf_write_blocks_hdf5_def split: option.splits)

subsection \<open>The two passes of digital\_rf\_create\_rf\_data\_index\<close>

lemma count_index_rows_step:
  "i < n \<Longrightarrow> count_index_rows st sw g d n i l f c =
     (if 0 < i \<and> d i \<le> l then Inl (IndicesOutOfOrder i)
      else if 0 < i \<and> g i - g (i - 1) < d i - l then Inl (IndicesAdvancingFaster i)
      else count_index_rows st sw g d n (Suc i) (d i) (f \<or> d i = sw)
             (if index_emitted st sw g d i then Suc c else c))"
  by (subst count_index_rows.simps) (simp add: Let_def index_emitted_def)

lemma count_index_rows_stop:
  "\<not> i < n \<Longrightarrow> count_index_rows st sw g d n i l f c = Inr (f, c)"
  by (subst count_index_rows.simps) simp

lemma count_index_rows_Inr:
  assumes "count_index_rows st sw g d n i l f c = Inr (f', c')"
    and "0 < i \<Longrightarrow> l = d (i - 1)"
  shows "(f' \<longleftrightarrow> f \<or> (\<exists>j. i \<le> j \<and> j < n \<and> d j = sw))
       \<and> c' = c + length (filter (index_emitted st sw g d) [i..<n])
       \<and> (\<forall>j. i \<le> j \<and> 0 < j \<and> j < n \<longrightarrow> d (j - 1) < d j \<and> d j - d (j - 1) \<le> g j - g (j - 1))"
  using assms
proof (induction "n - i" arbitrary: i l f c)
  case 0
  then have "\<not> i < n" by simp
  then show ?case using "0.prems"(1) by (auto simp: count_index_rows_stop)
next
  case (Suc k)
  then have lt: "i < n" by simp
  have v1: "\<not> (0 < i \<and> d i \<le> l)"
    using Suc.prems(1) by (auto simp: count_index_rows_step [OF lt] split: if_splits)
  have v2: "\<not> (0 < i \<and> g i - g (i - 1) < d i - l)"
    using Suc.prems(1) v1 by (auto simp: count_index_rows_step [OF lt] split: if_splits)
  have rec: "count_index_rows st sw g d n (Suc i) (d i) (f \<or> d i = sw)
               (if index_emitted st sw g d i then Suc c else c) = Inr (f', c')"
    using Suc.prems(1) v1 v2 unfolding count_index_rows_step [OF lt] by (simp split: if_splits)
  have k: "k = n - Suc i" using Suc.hyps(2) by simp
  have ih: "(f' \<longleftrightarrow> (f \<or> d i = sw) \<or> (\<exists>j. Suc i \<le> j \<and> j < n \<and> d j = sw))
       \<and> c' = (if index_emitted st sw g d i then Suc c else c)
               + length (filter (index_emitted st sw g d) [Suc i..<n])
       \<and> (\<forall>j. Suc i \<le> j \<and> 0 < j \<and> j < n \<longrightarrow> d (j - 1) < d j \<and> d j - d (j - 1) \<le> g j - g (j - 1))"
    using Suc.hyps(1) [OF k rec] by simp
  have up: "[i..<n] = i # [Suc i..<n]" using lt by (simp add: upt_conv_Cons)
  have a: "(f' \<longleftrightarrow> f \<or> (\<exists>j. i \<le> j \<and> j < n \<and> d j = sw))"
  proof -
    have "(\<exists>j. i \<le> j \<and> j < n \<and> d j = sw) \<longleftrightarrow> d i = sw \<or> (\<exists>j. Suc i \<le> j \<and> j < n \<and> d j = sw)"
      using lt by (metis Suc_leI le_eq_less_or_eq Suc_leD order_refl)
    then show ?thesis using ih by blast
  qed
  have b: "c' = c + length (filter (index_emitted st sw g d) [i..<n])"
    using ih up by simp
  have c: "\<forall>j. i \<le> j \<and> 0 < j \<and> j < n \<longrightarrow> d (j - 1) < d j \<and> d j - d (j - 1) \<le> g j - g (j - 1)"
  proof (intro allI impI)
    fix j assume j: "i \<le> j \<and> 0 < j \<and> j < n"
    show "d (j - 1) < d j \<and> d j - d (j - 1) \<le> g j - g (j - 1)"
    proof (cases "j = i")
      case True
      then have "0 < i" using j by simp
      then show ?thesis using v1 v2 Suc.prems(2) True by (simp add: not_less not_le)
    next
      case False
      then have "Suc i \<le> j" using j by simp
      then show ?thesis using ih j by blast
    qed
  qed
  show ?case using a b c by blast
qed

lemma count_index_rows_Inl:
  assumes "count_index_rows st sw g d n i l f c = Inl e"
    and "0 < i \<Longrightarrow> l = d (i - 1)"
  shows "\<exists>j. i \<le> j \<and> 0 < j \<and> j < n \<and>
            (e = IndicesOutOfOrder j \<and> d j \<le> d (j - 1)
             \<or> e = IndicesAdvancingFaster j \<and> g j - g (j - 1) < d j - d (j - 1))"
  using assms
proof (induction "n - i" arbitrary: i l f c)
  case 0
  then have "\<not> i < n" by simp
  then show ?case using "0.prems"(1) by (simp add: count_index_rows_stop)
next
  case (Suc k)
  then have lt: "i < n" by simp
  show ?case
  proof (cases "0 < i \<and> d i \<le> l")
    case True
    then have "e = IndicesOutOfOrder i"
      using Suc.prems(1) unfolding count_index_rows_step [OF lt] by simp
    then show ?thesis using True lt Suc.prems(2) by auto
  next
    case v1: False
    show ?thesis
    proof (cases "0 < i \<and> g i - g (i - 1) < d i - l")
      case True
      then have "e = IndicesAdvancingFaster i"
        using Suc.prems(1) v1 unfolding count_index_rows_step [OF lt] by (simp split: if_splits)
      then show ?thesis using True lt Suc.prems(2) by auto
    next
      case v2: False
      have rec: "count_index_rows st sw g d n (Suc i) (d i) (f \<or> d i = sw)
               (if index_emitted st sw g d i then Suc c else c) = Inl e"
        using Suc.prems(1) v1 v2 unfolding count_index_rows_step [OF lt] by (simp split: if_splits)
      have k: "k = n - Suc i" using Suc.hyps(2) by simp
      obtain j where "Suc i \<le> j \<and> 0 < j \<and> j < n \<and>
            (e = IndicesOutOfOrder j \<and> d j \<le> d (j - 1)
             \<or> e = IndicesAdvancingFaster j \<and> g j - g (j - 1) < d j - d (j - 1))"
        using Suc.hyps(1) [OF k rec] by auto
      then show ?thesis by (intro exI [of _ j]) auto
    qed
  qed
qed


lemma fill_index_rows_stop:
  "\<not> i < n \<Longrightarrow> fill_index_rows st sw g d n i ret rw = Inr (ret, rw)"
  by (subst fill_index_rows.simps) simp

lemma fill_index_rows_skip:
  "i < n \<Longrightarrow> \<not> index_emitted st sw g d i \<Longrightarrow>
   fill_index_rows st sw g d n i ret rw = fill_index_rows st sw g d n (Suc i) ret rw"
  by (subst fill_index_rows.simps) (auto simp: index_emitted_def Let_def)

lemma fill_index_rows_first:
  "i < n \<Longrightarrow> index_emitted st sw g d i \<Longrightarrow> d i = sw \<Longrightarrow>
   fill_index_rows st sw g d n i ret rw =
     (case store_row ret 0 (index_row st sw (g i) (d i)) of
        Inl e \<Rightarrow> Inl e
      | Inr ret1 \<Rightarrow> fill_index_rows st sw g d n (Suc i) ret1 (Suc rw))"
  by (subst fill_index_rows.simps) (auto simp: index_emitted_def Let_def)

lemma fill_index_rows_other:
  "i < n \<Longrightarrow> index_emitted st sw g d i \<Longrightarrow> d i \<noteq> sw \<Longrightarrow>
   fill_index_rows st sw g d n i ret rw =
     (if rw = 0 \<and> i = 0 then Inl AssertionFailed
      else case (if rw = 0 then store_row ret 0 (boundary_row st) else Inr ret) of
             Inl e \<Rightarrow> Inl e
           | Inr ret1 \<Rightarrow>
               (case store_row ret1 (if rw = 0 then 1 else rw) (index_row st sw (g i) (d i)) of
                  Inl e \<Rightarrow> Inl e
                | Inr ret2 \<Rightarrow>
                    fill_index_rows st sw g d n (Suc i) ret2 (Suc (if rw = 0 then 1 else rw))))"
  by (subst fill_index_rows.simps, unfold Let_def) (auto simp: index_emitted_def index_ignored_def)

lemma store_row_append:
  "store_row (W @ replicate m z) (length W) r =
     (if 0 < m then Inr (W @ r # replicate (m - 1) z) else Inl BufferOverrun)"
  by (cases m) (auto simp: store_row_def list_update_append)

lemma emitted_indices_Suc:
  "emitted_indices st sw g d (Suc i) =
     (if index_emitted st sw g d i then emitted_indices st sw g d i @ [i]
      else emitted_indices st sw g d i)"
  by (simp add: emitted_indices_def)

lemma rows_upto_Nil: "rows_upto st sw g d i = [] \<longleftrightarrow> emitted_indices st sw g d i = []"
  by (simp add: rows_upto_def Let_def)

lemma rows_upto_skip:
  "\<not> index_emitted st sw g d i \<Longrightarrow> rows_upto st sw g d (Suc i) = rows_upto st sw g d i"
  by (simp add: rows_upto_def emitted_indices_Suc)

lemma rows_upto_first:
  "index_emitted st sw g d i \<Longrightarrow> emitted_indices st sw g d i = [] \<Longrightarrow>
   rows_upto st sw g d (Suc i) =
     (if d i = sw then [] else [boundary_row st]) @ [index_row st sw (g i) (d i)]"
  by (simp add: rows_upto_def emitted_indices_Suc)

lemma rows_upto_next:
  "index_emitted st sw g d i \<Longrightarrow> emitted_indices st sw g d i \<noteq> [] \<Longrightarrow>
   rows_upto st sw g d (Suc i) = rows_upto st sw g d i @ [index_row st sw (g i) (d i)]"
  by (simp add: rows_upto_def emitted_indices_Suc Let_def)

lemma emitted_before_first:
  assumes mono: "\<forall>a b. a < b \<and> b < n \<longrightarrow> d a < d b"
    and "i < n" and "d i = sw"
  shows "emitted_indices st sw g d i = []"
proof -
  have "\<not> index_emitted st sw g d j" if "j < i" for j
  proof -
    have "d j < sw" using mono that assms(2,3) by blast
    then show ?thesis by (simp add: index_emitted_def index_in_file_def not_le)
  qed
  then show ?thesis by (simp add: emitted_indices_def filter_empty_conv)
qed

lemma fill_index_rows_Inr:
  assumes mono: "\<forall>a b. a < b \<and> b < n \<longrightarrow> d a < d b"
    and "fill_index_rows st sw g d n i (rows_upto st sw g d i @ replicate m (0, 0))
           (length (rows_upto st sw g d i)) = Inr (ret', rw')"
    and "i \<le> n"
  shows "\<exists>m'. ret' = rows_upto st sw g d n @ replicate m' (0, 0) \<and>
              rw' = length (rows_upto st sw g d n) \<and>
              length (rows_upto st sw g d n) + m' = length (rows_upto st sw g d i) + m"
  using assms(2,3)
proof (induction "n - i" arbitrary: i m)
  case 0
  then have "i = n" by simp
  then show ?case using "0.prems"(1) by (auto simp: fill_index_rows_stop)
next
  case (Suc k)
  then have lt: "i < n" by simp
  have k: "k = n - Suc i" using Suc.hyps(2) by simp
  have le: "Suc i \<le> n" using lt by simp
  let ?W = "rows_upto st sw g d i"
  let ?row = "index_row st sw (g i) (d i)"
  show ?case
  proof (cases "index_emitted st sw g d i")
    case False
    have "fill_index_rows st sw g d n (Suc i) (rows_upto st sw g d (Suc i) @ replicate m (0, 0))
           (length (rows_upto st sw g d (Suc i))) = Inr (ret', rw')"
      using Suc.prems(1) by (simp add: fill_index_rows_skip [OF lt False] rows_upto_skip [OF False])
    then show ?thesis using Suc.hyps(1) [OF k _ le] rows_upto_skip [OF False] by fastforce
  next
    case em: True
    show ?thesis
    proof (cases "d i = sw")
      case True
      have E: "emitted_indices st sw g d i = []"
        using emitted_before_first [OF mono lt True] .
      then have W: "?W = []" by (simp add: rows_upto_Nil)
      have W': "rows_upto st sw g d (Suc i) = [?row]"
        using rows_upto_first [OF em E] True by simp
      have st: "store_row (replicate m (0, 0)) 0 ?row =
                  (if 0 < m then Inr (?row # replicate (m - 1) (0, 0)) else Inl BufferOverrun)"
        using store_row_append [of "[]" m "(0, 0)" ?row] by simp
      have m: "0 < m"
        using Suc.prems(1) W st by (auto simp: fill_index_rows_first [OF lt em True] split: if_splits)
      have "fill_index_rows st sw g d n (Suc i) (rows_upto st sw g d (Suc i) @ replicate (m - 1) (0, 0))
           (length (rows_upto st sw g d (Suc i))) = Inr (ret', rw')"
        using Suc.prems(1) W W' st m by (simp add: fill_index_rows_first [OF lt em True])
      then obtain m' where "ret' = rows_upto st sw g d n @ replicate m' (0, 0) \<and>
              rw' = length (rows_upto st sw g d n) \<and>
              length (rows_upto st sw g d n) + m' = length (rows_upto st sw g d (Suc i)) + (m - 1)"
        using Suc.hyps(1) [OF k _ le] by blast
      then show ?thesis using W W' m by (intro exI [of _ m']) simp
    next
      case ne: False
      show ?thesis
      proof (cases "emitted_indices st sw g d i = []")
        case E: True
        then have W: "?W = []" by (simp add: rows_upto_Nil)
        have W': "rows_upto st sw g d (Suc i) = [boundary_row st, ?row]"
          using rows_upto_first [OF em E] ne by simp
        have st1: "store_row (replicate m (0, 0)) 0 (boundary_row st) =
                  (if 0 < m then Inr (boundary_row st # replicate (m - 1) (0, 0)) else Inl BufferOverrun)"
          using store_row_append [of "[]" m "(0, 0)" "boundary_row st"] by simp
        have st2: "store_row (boundary_row st # replicate (m - 1) (0, 0)) 1 ?row =
                  (if 0 < m - 1 then Inr (boundary_row st # ?row # replicate (m - 2) (0, 0))
                   else Inl BufferOverrun)"
          using store_row_append [of "[boundary_row st]" "m - 1" "(0, 0)" ?row]
          by (simp add: numeral_2_eq_2)
        have m: "0 < m"
          using Suc.prems(1) W st1
          by (auto simp: fill_index_rows_other [OF lt em ne] split: if_splits)
        have m2: "0 < m - 1"
          using Suc.prems(1) W st1 st2 m
          by (auto simp: fill_index_rows_other [OF lt em ne] split: if_splits)
        have "fill_index_rows st sw g d n (Suc i) (rows_upto st sw g d (Suc i) @ replicate (m - 2) (0, 0))
           (length (rows_upto st sw g d (Suc i))) = Inr (ret', rw')"
          using Suc.prems(1) W W' st1 st2 m m2
          by (auto simp: fill_index_rows_other [OF lt em ne] split: if_splits)
        then obtain m' where "ret' = rows_upto st sw g d n @ replicate m' (0, 0) \<and>
              rw' = length (rows_upto st sw g d n) \<and>
              length (rows_upto st sw g d n) + m' = length (rows_upto st sw g d (Suc i)) + (m - 2)"
          using Suc.hyps(1) [OF k _ le] by blast
        then show ?thesis using W W' m m2 by (intro exI [of _ m']) simp
      next
        case E: False
        then have W: "?W \<noteq> []" by (simp add: rows_upto_Nil)
        have W': "rows_upto st sw g d (Suc i) = ?W @ [?row]"
          using rows_upto_next [OF em E] .
        have st2: "store_row (?W @ replicate m (0, 0)) (length ?W) ?row =
                  (if 0 < m then Inr (?W @ ?row # replicate (m - 1) (0, 0)) else Inl BufferOverrun)"
          by (rule store_row_append)
        have m: "0 < m"
          using Suc.prems(1) W st2
          by (auto simp: fill_index_rows_other [OF lt em ne] split: if_splits)
        have "fill_index_rows st sw g d n (Suc i) (rows_upto st sw g d (Suc i) @ replicate (m - 1) (0, 0))
           (length (rows_upto st sw g d (Suc i))) = Inr (ret', rw')"
          using Suc.prems(1) W W' st2 m
          by (auto simp: fill_index_rows_other [OF lt em ne] split: if_splits)
        then obtain m' where "ret' = rows_upto st sw g d n @ replicate m' (0, 0) \<and>
              rw' = length (rows_upto st sw g d n) \<and>
              length (rows_upto st sw g d n) + m' = length (rows_upto st sw g d (Suc i)) + (m - 1)"
          using Suc.hyps(1) [OF k _ le] by blast
        then show ?thesis using W' m by (intro exI [of _ m']) simp
      qed
    qed
  qed
qed


lemma indices_valid_mono:
  assumes "indices_valid g d n" and "a < b" and "b < n"
  shows "d a < d b"
  using assms(2,3)
proof (induction b)
  case 0
  then show ?case by simp
next
  case (Suc b)
  have s: "d b < d (Suc b)"
    using assms(1) Suc.prems(2) unfolding indices_valid_def by (metis diff_Suc_1 zero_less_Suc)
  show ?case
  proof (cases "a = b")
    case True
    then show ?thesis using s by simp
  next
    case False
    then have "d a < d b" using Suc by simp
    then show ?thesis using s by simp
  qed
qed

lemma create_rf_data_index_Inr:
  assumes "digital_rf_create_rf_data_index st sw g d n = Inr rows"
  shows "indices_valid g d n"
    and "rows = (if \<exists>j<n. d j = sw then [] else [boundary_row st])
                @ map (\<lambda>j. index_row st sw (g j) (d j)) (emitted_indices st sw g d n)"
    and "emitted_indices st sw g d n \<noteq> [] \<Longrightarrow>
         (d (hd (emitted_indices st sw g d n)) = sw \<longleftrightarrow> (\<exists>j<n. d j = sw))"
proof -
  obtain found c0 where cnt: "count_index_rows st sw g d n 0 0 False 0 = Inr (found, c0)"
    using assms
    by (cases "count_index_rows st sw g d n 0 0 False 0")
       (auto simp: digital_rf_create_rf_data_index_def split: if_splits)
  have c: "(found \<longleftrightarrow> (\<exists>j<n. d j = sw))"
      "c0 = length (emitted_indices st sw g d n)"
      "indices_valid g d n"
    using count_index_rows_Inr [OF cnt] by (auto simp: emitted_indices_def indices_valid_def)
  show "indices_valid g d n" by fact
  then have mono: "\<forall>a b. a < b \<and> b < n \<longrightarrow> d a < d b"
    using indices_valid_mono by blast
  define rc where "rc = (if \<not> found then Suc c0 else c0)"
  let ?E = "emitted_indices st sw g d n"
  let ?R = "rows_upto st sw g d n"
  have nb: "\<not> (sw = 0 \<and> g 0 < global_index st)"
    using assms by (auto simp: digital_rf_create_rf_data_index_def split: if_splits)
  have unf: "digital_rf_create_rf_data_index st sw g d n =
      (if rc = 0 then Inr []
       else (case fill_index_rows st sw g d n 0 (replicate rc (0, 0)) 0 of
               Inl e \<Rightarrow> Inl e
             | Inr (ret_arr, rows_written) \<Rightarrow>
                 (case (if rows_written = 0 then store_row ret_arr 0 (boundary_row st)
                        else Inr ret_arr) of
                    Inl e \<Rightarrow> Inl e
                  | Inr ret1 \<Rightarrow>
                      if (if rows_written = 0 then 1 else rows_written) = rc then Inr ret1
                      else Inl AssertionFailed)))"
    unfolding digital_rf_create_rf_data_index_def Let_def rc_def using nb cnt by auto
  have main: "rows = (if \<exists>j<n. d j = sw then [] else [boundary_row st])
                @ map (\<lambda>j. index_row st sw (g j) (d j)) ?E
              \<and> (?E \<noteq> [] \<longrightarrow> (d (hd ?E) = sw \<longleftrightarrow> (\<exists>j<n. d j = sw)))"
  proof (cases "rc = 0")
    case True
    then have "rows = []"
      using assms unfolding unf by simp
    moreover have "found" "?E = []" using True c(2) by (auto simp: rc_def split: if_splits)
    ultimately show ?thesis using c(1) by simp
  next
    case False
    obtain ret' rw' where fl:
      "fill_index_rows st sw g d n 0 (replicate rc (0, 0)) 0 = Inr (ret', rw')"
      using assms False unfolding unf
      by (cases "fill_index_rows st sw g d n 0 (replicate rc (0, 0)) 0") auto
    have r0: "rows_upto st sw g d 0 = []" by (simp add: rows_upto_def emitted_indices_def)
    obtain m' where m': "ret' = ?R @ replicate m' (0, 0)" "rw' = length ?R"
        "length ?R + m' = rc"
      using fill_index_rows_Inr [OF mono, of st sw g 0 rc ret' rw'] fl r0 by auto
    have fin: "(case (if rw' = 0 then store_row ret' 0 (boundary_row st) else Inr ret') of
                   Inl e \<Rightarrow> Inl e
                 | Inr ret1 \<Rightarrow>
                     if (if rw' = 0 then 1 else rw') = rc then Inr ret1 else Inl AssertionFailed)
               = Inr rows"
      using assms False fl unfolding unf by simp
    show ?thesis
    proof (cases "rw' = 0")
      case True
      then have R: "?R = []" using m'(2) by simp
      then have E: "?E = []" by (simp add: rows_upto_Nil)
      have "store_row ret' 0 (boundary_row st) = Inr (boundary_row st # replicate (m' - 1) (0, 0))"
        using store_row_append [of "[]" m' "(0, 0)" "boundary_row st"] m'(1,3) R False by simp
      then have "rc = 1" "rows = boundary_row st # replicate (m' - 1) (0, 0)"
        using fin True by (auto split: if_splits)
      then have rows: "rows = [boundary_row st]" using m'(3) R by simp
      have "\<not> found" using \<open>rc = 1\<close> c(2) E by (auto simp: rc_def split: if_splits)
      then show ?thesis using rows E c(1) by simp
    next
      case nz: False
      then have "rw' = rc" "rows = ret'" using fin by (auto split: if_splits)
      then have rows: "rows = ?R" using m' by simp
      have E: "?E \<noteq> []" using nz m'(2) by (auto simp: rows_upto_Nil)
      have len: "length ?R = (if d (hd ?E) = sw then 0 else 1) + length ?E"
        using E by (simp add: rows_upto_def Let_def)
      have "length ?R = rc" using \<open>rw' = rc\<close> m'(2) by simp
      then have "(d (hd ?E) = sw) \<longleftrightarrow> found"
        using len c(2) by (auto simp: rc_def split: if_splits)
      then show ?thesis using rows E c(1) by (simp add: rows_upto_def Let_def)
    qed
  qed
  show "rows = (if \<exists>j<n. d j = sw then [] else [boundary_row st])
                @ map (\<lambda>j. index_row st sw (g j) (d j)) ?E"
    using main by blast
  show "d (hd ?E) = sw \<longleftrightarrow> (\<exists>j<n. d j = sw)" if "?E \<noteq> []"
    using main that by blast
qed

subsection \<open>The rows of a slice when the index is built\<close>

text \<open>
  When digital\_rf\_create\_rf\_data\_index returns an array, with
  \<open>first = samples_written\<close> and \<open>end = end_index\<close>, its rows are: one row for every user pair
  \<open>(g i, b i)\<close> (in the order of the arrays) with \<open>first \<le> b i < end\<close> that is not a
  suppressed continuation (\<open>b i = first\<close>, \<open>dataset_index > 0\<close> and
  \<open>global_index = g i\<close>); the row of pair \<open>i\<close> is
  \<open>(g i + global_start_sample, b i + dataset_index - samples_written)\<close>. The only other
  row there can be is the boundary row \<open>(global_index + global_start_sample, 0)\<close> in
  front, present exactly when no pair has \<open>b i = first\<close>.
\<close>

lemma index_rows_of_slice:
  assumes "digital_rf_create_rf_data_index st samples_written global_index_arr data_index_arr
             index_len = Inr rows"
  shows "rows =
          (if \<exists>i<index_len. data_index_arr i = samples_written then []
           else [(global_index st + global_start_sample st, 0)])
          @ map (\<lambda>i. (global_index_arr i + global_start_sample st,
                       data_index_arr i + dataset_index st - samples_written))
              (filter (\<lambda>i. samples_written \<le> data_index_arr i
                           \<and> data_index_arr i < end_index st samples_written
                           \<and> \<not> (data_index_arr i = samples_written \<and> 0 < dataset_index st
                                 \<and> global_index st = global_index_arr i))
                 [0..<index_len])"
proof -
  have f: "emitted_indices st samples_written global_index_arr data_index_arr index_len =
           filter (\<lambda>i. samples_written \<le> data_index_arr i
                           \<and> data_index_arr i < end_index st samples_written
                           \<and> \<not> (data_index_arr i = samples_written \<and> 0 < dataset_index st
                                 \<and> global_index st = global_index_arr i))
                 [0..<index_len]"
    unfolding emitted_indices_def
    by (rule filter_cong) (auto simp: index_emitted_def index_in_file_def index_ignored_def)
  show ?thesis
    using create_rf_data_index_Inr(2) [OF assms]
    unfolding f boundary_row_def index_row_def .
qed

lemma index_rows_of_slice_example:
  "digital_rf_create_rf_data_index (demo_writer\<lparr>global_index := 4\<rparr>) 4 ((!) [0, 20]) ((!) [0, 6]) 2
     = Inr [(1004, 0), (1020, 2)] \<and>
   [(1004, 0), (1020, 2)] =
          (if \<exists>i<2. [0, 6 :: u64] ! i = 4 then []
           else [(global_index (demo_writer\<lparr>global_index := 4\<rparr>)
                  + global_start_sample (demo_writer\<lparr>global_index := 4\<rparr>), 0)])
          @ map (\<lambda>i. ([0, 20] ! i + global_start_sample (demo_writer\<lparr>global_index := 4\<rparr>),
                       [0, 6] ! i + dataset_index (demo_writer\<lparr>global_index := 4\<rparr>) - 4))
              (filter (\<lambda>i. 4 \<le> [0, 6 :: u64] ! i
                           \<and> [0, 6] ! i < end_index (demo_writer\<lparr>global_index := 4\<rparr>) 4
                           \<and> \<not> ([0, 6 :: u64] ! i = 4 \<and> 0 < dataset_index (demo_writer\<lparr>global_index := 4\<rparr>)
                                 \<and> global_index (demo_writer\<lparr>global_index := 4\<rparr>) = [0, 20] ! i))
                 [0..<2])"
proof -
  have ev: "digital_rf_create_rf_data_index (demo_writer\<lparr>global_index := 4\<rparr>) 4
              ((!) [0, 20]) ((!) [0, 6]) 2 = Inr [(1004, 0), (1020, 2)]"
    by code_simp
  show ?thesis
    by (rule conjI [OF ev index_rows_of_slice [OF ev]])
qed

text \<open>
  But the function returns an array with a suppressed pair only when the array is empty:
  the first pass counts the suppressed pair as the pair at \<open>first\<close>, so no room is made
  for a boundary row, and the second pass, which skips the suppressed pair, writes a
  boundary row in front of the next pair of the slice. So whenever a pair is suppressed and
  another pair lies in the slice, the function fails.
\<close>

lemma suppressed_pair_no_rows:
  assumes r: "digital_rf_create_rf_data_index st sw g d n = Inr rows"
    and i: "i < n" and ig: "index_ignored st sw (d i) (g i)"
  shows "emitted_indices st sw g d n = []" and "rows = []"
proof -
  let ?E = "emitted_indices st sw g d n"
  have v: "indices_valid g d n"
    by (rule create_rf_data_index_Inr(1) [OF r])
  have di: "d i = sw"
    using ig by (simp add: index_ignored_def)
  have ex: "\<exists>j<n. d j = sw"
    using i di by blast
  show e: "?E = []"
  proof (rule ccontr)
    assume ne: "?E \<noteq> []"
    let ?k = "hd ?E"
    have "?k \<in> set ?E"
      using ne by simp
    then have k: "?k < n" "index_emitted st sw g d ?k"
      by (simp_all add: emitted_indices_def)
    have dk: "d ?k = sw"
      using create_rf_data_index_Inr(3) [OF r ne] ex by blast
    have "?k = i"
    proof (rule ccontr)
      assume "?k \<noteq> i"
      then consider "?k < i" | "i < ?k"
        by linarith
      then show False
      proof cases
        case 1
        from indices_valid_mono [OF v 1 i] show False
          using dk di by simp
      next
        case 2
        from indices_valid_mono [OF v 2 k(1)] show False
          using dk di by simp
      qed
    qed
    then show False
      using k(2) ig by (simp add: index_emitted_def)
  qed
  show "rows = []"
    using create_rf_data_index_Inr(2) [OF r] ex e by simp
qed

lemma suppressed_then_row_fails:
  assumes i: "i < n" and ig: "index_ignored st sw (d i) (g i)"
    and j: "j < n" and em: "index_emitted st sw g d j"
  shows "\<exists>e. digital_rf_create_rf_data_index st sw g d n = Inl e"
proof (cases "digital_rf_create_rf_data_index st sw g d n")
  case (Inl e)
  then show ?thesis
    by blast
next
  case (Inr rows)
  have "j \<in> set (emitted_indices st sw g d n)"
    using j em by (simp add: emitted_indices_def)
  then show ?thesis
    using suppressed_pair_no_rows(1) [OF Inr i ig] by simp
qed

subsection \<open>The index rows of a newly opened file\<close>


lemma new_file_rows:
  assumes ok: "writer_ok st" and closed: "hdf5_file st = 0"
    and r: "digital_rf_write_samples_to_file lib st sw g d n v vl = (Inr k, st')"
    and rows: "digital_rf_create_rf_data_index st sw g d n = Inr rows"
    and ne: "rows \<noteq> []"
  shows "length (fs_files st') = Suc (length (fs_files st))"
    and "rf_data_index (last (fs_files st')) = rows"
proof -
  from r obtain rows' st1 st3 where
    rows': "digital_rf_create_rf_data_index st sw g d n = Inr rows'"
    and o: "open_file_if_needed lib st (digital_rf_get_global_sample sw g d n) = (Inr (), st1)"
    and w: "(if 0 < length rows'
          then digital_rf_write_rf_data_index lib (h5_write_rf_data st1 sw k v) rows'
          else (Inr (), h5_write_rf_data st1 sw k v)) = (Inr (), st3)"
    and adv: "advance_state st3 rows' k = (Inr k, st')"
    by (rule write_samples_success)
  have eq: "rows' = rows" using rows rows' by simp
  have c: "digital_rf_create_hdf5_file lib st (digital_rf_get_global_sample sw g d n) = (Inr (), st1)"
    using o closed by (simp add: open_file_if_needed_def)
  have st1: "hdf5_file st1 = Suc (length (fs_files st))"
      "length (fs_files st1) = Suc (length (fs_files st))"
      "\<not> index_dataset st1"
    using create_hdf5_file_ok [OF c] ok closed by (simp_all add: writer_ok_def)
  let ?st2 = "h5_write_rf_data st1 sw k v"
  have st2: "hdf5_file ?st2 = Suc (length (fs_files st))"
      "length (fs_files ?st2) = Suc (length (fs_files st))"
      "\<not> index_dataset ?st2"
    using st1 by (simp_all add: h5_write_rf_data_def)
  have w': "digital_rf_write_rf_data_index lib ?st2 rows = (Inr (), st3)"
    using w ne eq by simp
  have a: "rf_data_index (fs_files st3 ! (hdf5_file ?st2 - 1)) = rows"
    using write_rf_data_index_new [OF w' st2(3)] st2(1,2) by simp
  have l3: "length (fs_files st3) = Suc (length (fs_files st))"
    using write_rf_data_index_fields [OF w'] st2(2) by simp
  have f': "fs_files st' = fs_files st3" using advance_state_ok [OF adv] by simp
  show "length (fs_files st') = Suc (length (fs_files st))" using f' l3 by simp
  have "fs_files st3 \<noteq> []" using l3 by auto
  then have "last (fs_files st3) = fs_files st3 ! (length (fs_files st))"
    using l3 by (simp add: last_conv_nth)
  then show "rf_data_index (last (fs_files st')) = rows"
    using a f' st2(1) by simp
qed

lemma first_in_new_file:
  fixes sw :: u64
  assumes ok: "writer_ok st" and closed: "hdf5_file st = 0"
    and nov: "unat sw + unat (samples_per_file st) < 2 ^ 64"
  shows "index_in_file st sw sw" and "\<not> index_ignored st sw x y"
proof -
  have di: "dataset_index st = 0" and spf: "0 < samples_per_file st"
    using ok closed by (simp_all add: writer_ok_def)
  show "\<not> index_ignored st sw x y" using di by (simp add: index_ignored_def)
  have "unat (sw + samples_per_file st) = unat sw + unat (samples_per_file st)"
    using nov by (simp add: unat_add_lem [THEN iffD1])
  moreover have "0 < unat (samples_per_file st)" using spf by (simp add: word_less_nat_alt)
  ultimately have "sw < sw + samples_per_file st" by (simp add: word_less_nat_alt)
  then show "index_in_file st sw sw" using di by (simp add: index_in_file_def end_index_def)
qed

lemma new_file_index:
  assumes ok: "writer_ok st" and closed: "hdf5_file st = 0"
    and nov: "unat sw + unat (samples_per_file st) < 2 ^ 64"
    and rows: "digital_rf_create_rf_data_index st sw g d n = Inr rows"
  shows "rows \<noteq> []" and "snd (hd rows) = 0"
    and "(\<forall>i<n. d i \<noteq> sw) \<or> (\<forall>i<n. index_in_file st sw (d i) \<longrightarrow> index_ignored st sw (d i) (g i))
         \<Longrightarrow> hd rows = (global_index st + global_start_sample st, 0)"
proof -
  note F = first_in_new_file [OF ok closed nov]
  have di: "dataset_index st = 0" using ok closed by (simp add: writer_ok_def)
  have valid: "indices_valid g d n" using create_rf_data_index_Inr(1) [OF rows] .
  then have mono: "\<forall>a b. a < b \<and> b < n \<longrightarrow> d a < d b" using indices_valid_mono by blast
  let ?E = "emitted_indices st sw g d n"
  have R: "rows = (if \<exists>j<n. d j = sw then [] else [boundary_row st])
                @ map (\<lambda>j. index_row st sw (g j) (d j)) ?E"
    using create_rf_data_index_Inr(2) [OF rows] .
  have found: "?E \<noteq> [] \<and> hd ?E = j" if j: "j < n" "d j = sw" for j
  proof -
    have em: "index_emitted st sw g d j" using F j(2) by (simp add: index_emitted_def)
    have b: "emitted_indices st sw g d j = []" using emitted_before_first [OF mono j] .
    have split: "[0..<n] = [0..<j] @ j # [Suc j..<n]"
      using j(1) by (metis le0 less_imp_le_nat upt_add_eq_append upt_conv_Cons 
          add_diff_cancel_left' le_add_diff_inverse)
    have "?E = emitted_indices st sw g d j @ j # filter (index_emitted st sw g d) [Suc j..<n]"
      unfolding emitted_indices_def using em by (subst split) simp
    then show ?thesis using b by simp
  qed
  show ne: "rows \<noteq> []"
  proof (cases "\<exists>j<n. d j = sw")
    case True
    then show ?thesis using found R by auto
  next
    case False
    then have "rows = boundary_row st # map (\<lambda>j. index_row st sw (g j) (d j)) ?E"
      using R by auto
    then show ?thesis by simp
  qed
  show "snd (hd rows) = 0"
  proof (cases "\<exists>j<n. d j = sw")
    case True
    then obtain j where j: "j < n" "d j = sw" by blast
    then have "?E \<noteq> []" "hd ?E = j" using found by blast+
    then have "hd rows = index_row st sw (g j) (d j)"
      using R True by (simp add: hd_map)
    then show ?thesis using j(2) di by (simp add: index_row_def)
  next
    case False
    then have "rows = boundary_row st # map (\<lambda>j. index_row st sw (g j) (d j)) ?E"
      using R by auto
    then show ?thesis by (simp add: boundary_row_def)
  qed
  show "hd rows = (global_index st + global_start_sample st, 0)"
    if h: "(\<forall>i<n. d i \<noteq> sw) \<or> (\<forall>i<n. index_in_file st sw (d i) \<longrightarrow> index_ignored st sw (d i) (g i))"
  proof -
    have "\<not> (\<exists>j<n. d j = sw)"
    proof
      assume "\<exists>j<n. d j = sw"
      then obtain j where j: "j < n" "d j = sw" by blast
      then show False using h F by auto
    qed
    then have "rows = boundary_row st # map (\<lambda>j. index_row st sw (g j) (d j)) ?E"
      using R by auto
    then show ?thesis by (simp add: boundary_row_def)
  qed
qed

subsection \<open>IEEE-754 rounding\<close>

text \<open>
  \<open>rne\<close> at the values used below. 0.1 rounds to the double \<open>0x3FB999999999999A\<close>; an
  odd integer just above \<open>2 ^ 53\<close> lies halfway between two doubles and goes to the one
  with the even significand.
\<close>

lemma rne_tenth: "rne (1 / 10) = 3602879701896397 / 36028797018963968"
  by code_simp

lemma rne_large:
  "rne 9007199254740993 = 9007199254740992"
  "rne 9007199254740992 = 9007199254740992"
  "rne 9007199254740995 = 9007199254740996"
  by code_simp+

lemma rne_small:
  "rne 1 = 1"
  "rne 1000000000000 = 1000000000000"
  by code_simp+

lemma round_rat_1e12: "round_rat 1000000000000 = 1000000000000"
  by code_simp

text \<open>
  The same at a rate in use: sample \<open>139436822999999999\<close> at 100 MHz is the last sample
  of second \<open>1394368229\<close>, but its double quotient by the rate rounds to \<open>1394368230\<close>,
  and this is the second \<open>gmtime\<close> is asked for. The integer remainder is then \<open>- 1\<close> as a
  \<open>uint64_t\<close>, and the picoseconds computed from it are left open here.
\<close>

lemma rne_2014:
  "rne 139436822999999999 = 139436823000000000"
  "rne (139436823000000000 / 100000000) = 1394368230"
  "rne 1394368230 = 1394368230"
  by code_simp+

lemma unix_second_one_late:
  "\<exists>p. digital_rf_get_unix_time (ieee_lib gm pr) 139436822999999999 100000000 =
     (case gm 1394368230 of
        None \<Rightarrow> Inl GmtimeFailed
      | Some t \<Rightarrow> Inr (tm_year t + 1900, tm_mon t + 1, tm_mday t, tm_hour t, tm_min t, tm_sec t, p))"
  unfolding digital_rf_get_unix_time_def ieee_lib_def
  by (simp add: rne_2014 truncate_rat_def Let_def split: option.split)

subsection \<open>Which errors a call can end with\<close>

lemma store_row_Inl: "store_row ret k row = Inl e \<Longrightarrow> e = BufferOverrun"
  by (simp add: store_row_def split: if_splits)

lemma fill_index_rows_Inl:
  assumes "fill_index_rows st sw g d n i ret rw = Inl e"
  shows "e = BufferOverrun \<or> e = AssertionFailed"
  using assms
proof (induction "n - i" arbitrary: i ret rw)
  case 0
  then have "\<not> i < n" by simp
  then show ?case using "0.prems" by (simp add: fill_index_rows_stop)
next
  case (Suc k)
  then have lt: "i < n" by simp
  have k: "k = n - Suc i" using Suc.hyps(2) by simp
  show ?case
  proof (cases "index_emitted st sw g d i")
    case False
    then show ?thesis
      using Suc.prems Suc.hyps(1) [OF k] by (simp add: fill_index_rows_skip [OF lt])
  next
    case em: True
    show ?thesis
    proof (cases "d i = sw")
      case True
      show ?thesis
        using Suc.prems Suc.hyps(1) [OF k] store_row_Inl
        by (auto simp: fill_index_rows_first [OF lt em True] split: sum.splits)
    next
      case False
      show ?thesis
        using Suc.prems Suc.hyps(1) [OF k] store_row_Inl
        by (auto simp: fill_index_rows_other [OF lt em False] split: sum.splits if_splits)
    qed
  qed
qed

lemma create_rf_data_index_Inl:
  assumes "digital_rf_create_rf_data_index st sw g d n = Inl e"
  shows "e = BeforeMinimum \<and> sw = 0 \<and> g 0 < global_index st
       \<or> e = BufferOverrun \<or> e = AssertionFailed
       \<or> (\<exists>j. 0 < j \<and> j < n \<and>
            (e = IndicesOutOfOrder j \<and> d j \<le> d (j - 1)
             \<or> e = IndicesAdvancingFaster j \<and> g j - g (j - 1) < d j - d (j - 1)))"
proof (cases "sw = 0 \<and> g 0 < global_index st")
  case True
  then show ?thesis using assms by (simp add: digital_rf_create_rf_data_index_def)
next
  case nb: False
  show ?thesis
  proof (cases "count_index_rows st sw g d n 0 0 False 0")
    case (Inl e')
    then have "e' = e" using assms nb by (auto simp: digital_rf_create_rf_data_index_def)
    then show ?thesis using count_index_rows_Inl [OF Inl] by auto
  next
    case (Inr p)
    obtain found c0 where p: "p = (found, c0)" by (cases p)
    define rc where "rc = (if \<not> found then Suc c0 else c0)"
    have unf: "digital_rf_create_rf_data_index st sw g d n =
      (if rc = 0 then Inr []
       else (case fill_index_rows st sw g d n 0 (replicate rc (0, 0)) 0 of
               Inl e \<Rightarrow> Inl e
             | Inr (ret_arr, rows_written) \<Rightarrow>
                 (case (if rows_written = 0 then store_row ret_arr 0 (boundary_row st)
                        else Inr ret_arr) of
                    Inl e \<Rightarrow> Inl e
                  | Inr ret1 \<Rightarrow>
                      if (if rows_written = 0 then 1 else rows_written) = rc then Inr ret1
                      else Inl AssertionFailed)))"
      unfolding digital_rf_create_rf_data_index_def Let_def rc_def using nb Inr p by auto
    have "e = BufferOverrun \<or> e = AssertionFailed"
      using assms unfolding unf
      by (auto split: if_splits sum.splits dest: fill_index_rows_Inl store_row_Inl)
    then show ?thesis by blast
  qed
qed

lemma create_rf_data_index_rejects:
  assumes "\<not> (sw = 0 \<and> g 0 < global_index st)"
    and "\<not> indices_valid g d n"
  shows "\<exists>e. digital_rf_create_rf_data_index st sw g d n = Inl e \<and> index_malformed e"
proof (cases "digital_rf_create_rf_data_index st sw g d n")
  case (Inr rows)
  then show ?thesis using create_rf_data_index_Inr(1) assms(2) by blast
next
  case (Inl e)
  have "\<exists>e'. count_index_rows st sw g d n 0 0 False 0 = Inl e'"
  proof (cases "count_index_rows st sw g d n 0 0 False 0")
    case (Inr p)
    obtain found c0 where "p = (found, c0)" by (cases p)
    then have "indices_valid g d n"
      using count_index_rows_Inr [of st sw g d n 0 0 False 0 found c0] Inr
      by (auto simp: indices_valid_def)
    then show ?thesis using assms(2) by simp
  qed simp
  then obtain e' where e': "count_index_rows st sw g d n 0 0 False 0 = Inl e'" by blast
  then have "e = e'" using Inl assms(1) by (auto simp: digital_rf_create_rf_data_index_def)
  moreover have "index_malformed e'" using count_index_rows_Inl [OF e'] by auto
  ultimately show ?thesis using Inl by simp
qed

lemma create_rf_data_index_accepts:
  assumes "indices_valid g d n"
    and "digital_rf_create_rf_data_index st sw g d n = Inl e"
  shows "\<not> index_malformed e"
proof -
  have "\<not> (\<exists>j. 0 < j \<and> j < n \<and>
            (e = IndicesOutOfOrder j \<and> d j \<le> d (j - 1)
             \<or> e = IndicesAdvancingFaster j \<and> g j - g (j - 1) < d j - d (j - 1)))"
    using assms(1) unfolding indices_valid_def by (auto simp: not_less not_le)
  then show ?thesis using create_rf_data_index_Inl [OF assms(2)] by auto
qed


lemma uint_sub_le:
  fixes a b :: u64
  assumes "a \<le> b"
  shows "uint (b - a) = uint b - uint a"
  using assms by (simp add: uint_sub_lem [THEN iffD1] word_le_def)

lemma advance_ok_word:
  fixes d0 d1 g0 g1 :: u64
  assumes "d0 < d1" and "uint d1 - uint d0 \<le> uint g1 - uint g0"
  shows "d1 - d0 \<le> g1 - g0"
proof -
  have "uint d0 < uint d1" using assms(1) by (simp add: word_less_def)
  then have "uint g0 \<le> uint g1" using assms(2) by linarith
  then have "g0 \<le> g1" by (simp add: word_le_def)
  then have "uint (g1 - g0) = uint g1 - uint g0" by (rule uint_sub_le)
  moreover have "d0 \<le> d1" using assms(1) by auto
  then have "uint (d1 - d0) = uint d1 - uint d0" by (rule uint_sub_le)
  ultimately show ?thesis using assms(2) by (simp add: word_le_def)
qed

lemma advance_bad_word:
  fixes d0 d1 g0 g1 :: u64
  assumes "g0 \<le> g1" and "uint g1 - uint g0 < uint d1 - uint d0"
  shows "\<not> (d0 < d1 \<and> d1 - d0 \<le> g1 - g0)"
proof
  assume a: "d0 < d1 \<and> d1 - d0 \<le> g1 - g0"
  have "uint (g1 - g0) = uint g1 - uint g0" using assms(1) by (rule uint_sub_le)
  moreover have "d0 \<le> d1" using a by auto
  then have "uint (d1 - d0) = uint d1 - uint d0" by (rule uint_sub_le)
  ultimately show False using a assms(2) by (simp add: word_le_def)
qed

lemma create_new_directory_Inl:
  "digital_rf_create_new_directory lib st nx = (Inl e, st') \<Longrightarrow> \<not> index_malformed e"
  by (auto simp: digital_rf_create_new_directory_def sub_directory_of_def
             digital_rf_get_unix_time_def Let_def
           split: sum.splits if_splits prod.splits option.splits)

lemma create_hdf5_file_Inl:
  assumes "digital_rf_create_hdf5_file lib st nx = (Inl e, st')"
  shows "\<not> index_malformed e"
proof -
  let ?st1 = "st\<lparr>present_seq := present_seq st + 1\<rparr>"
  obtain r2 st2 where d: "(if (word_of_int (present_seq ?st1) :: u64) mod files_per_directory ?st1 = 0
               then digital_rf_create_new_directory lib ?st1 nx
               else (Inr (), ?st1)) = (r2, st2)"
    by (cases "(if (word_of_int (present_seq ?st1) :: u64) mod files_per_directory ?st1 = 0
               then digital_rf_create_new_directory lib ?st1 nx
               else (Inr (), ?st1))")
  show ?thesis
  proof (cases "files_per_directory st = 0")
    case True
    then show ?thesis using assms by (auto simp: digital_rf_create_hdf5_file_def Let_def)
  next
    case fpd: False
    show ?thesis
    proof (cases r2)
      case (Inl e2)
      then have "e = e2"
        using assms d fpd by (simp add: digital_rf_create_hdf5_file_def Let_def)
      moreover have "\<not> index_malformed e2"
        using d Inl create_new_directory_Inl [of lib ?st1 nx e2 st2] by (auto split: if_splits)
      ultimately show ?thesis by simp
    next
      case (Inr u)
      show ?thesis
      proof (cases "sub_directory st2")
        case None
        then have "e = NullSubDirectory"
          using assms d fpd Inr by (simp add: digital_rf_create_hdf5_file_def Let_def)
        then show ?thesis by simp
      next
        case (Some sub)
        then have "e = FileCreateFailed"
          using assms d fpd Inr
          by (simp add: digital_rf_create_hdf5_file_def Let_def split: if_splits)
        then show ?thesis by simp
      qed
    qed
  qed
qed

lemma write_rf_data_index_Inl:
  "digital_rf_write_rf_data_index lib st rows = (Inl e, st') \<Longrightarrow> e = IndexWriteFailed"
  by (auto simp: digital_rf_write_rf_data_index_def Let_def split: if_splits)

lemma advance_state_Inl:
  "advance_state st rows tw = (Inl e, st') \<Longrightarrow> e = AssertionFailed"
  by (auto simp: advance_state_def Let_def split: if_splits)

lemma write_samples_accepts:
  assumes "d 0 = 0" and "indices_valid g d n"
    and r: "digital_rf_write_samples_to_file lib st sw g d n v vl = (Inl e, st')"
  shows "\<not> index_malformed e"
proof (cases "n < 1")
  case True
  then show ?thesis using r by (simp add: digital_rf_write_samples_to_file_def)
next
  case n: False
  show ?thesis
  proof (cases "digital_rf_create_rf_data_index st sw g d n")
    case (Inl e')
    then have "e' = e" using r n assms(1) by (simp add: digital_rf_write_samples_to_file_def)
    then show ?thesis using create_rf_data_index_accepts [OF assms(2) Inl] by simp
  next
    case (Inr rows)
    obtain r1 st1 where o: "open_file_if_needed lib st (digital_rf_get_global_sample sw g d n) = (r1, st1)"
      by (cases "open_file_if_needed lib st (digital_rf_get_global_sample sw g d n)")
    show ?thesis
    proof (cases r1)
      case (Inl e')
      then have "e' = e" using r n assms(1) Inr o by (simp add: digital_rf_write_samples_to_file_def)
      moreover have "\<not> index_malformed e'"
        using o Inl create_hdf5_file_Inl [of lib st _ e' st1]
        by (auto simp: open_file_if_needed_def split: if_splits)
      ultimately show ?thesis by simp
    next
      case (Inr u)
      define tw where "tw = samples_to_write_of st1 vl sw"
      obtain r3 st3 where w: "(if 0 < length rows
          then digital_rf_write_rf_data_index lib (h5_write_rf_data st1 sw tw v) rows
          else (Inr (), h5_write_rf_data st1 sw tw v)) = (r3, st3)"
        by (cases "(if 0 < length rows
          then digital_rf_write_rf_data_index lib (h5_write_rf_data st1 sw tw v) rows
          else (Inr (), h5_write_rf_data st1 sw tw v))")
      have eq: "digital_rf_write_samples_to_file lib st sw g d n v vl =
        (if \<not> H5Dwrite_ok lib (hdf5_file st1) (dataset_index st1) then (Inl H5DwriteFailed, st1)
         else (case r3 of Inl e \<Rightarrow> (Inl e, st3) | Inr u \<Rightarrow> advance_state st3 rows tw))"
      proof (cases "rows = []")
        case True
        with w have "r3 = Inr ()" "st3 = h5_write_rf_data st1 sw tw v" by auto
        then show ?thesis
          using n assms(1) True \<open>digital_rf_create_rf_data_index st sw g d n = Inr rows\<close> o Inr
          by (simp add: digital_rf_write_samples_to_file_def Let_def tw_def)
      next
        case False
        with w have "digital_rf_write_rf_data_index lib (h5_write_rf_data st1 sw tw v) rows = (r3, st3)"
          by simp
        then show ?thesis
          using n assms(1) False \<open>digital_rf_create_rf_data_index st sw g d n = Inr rows\<close> o Inr
          by (simp add: digital_rf_write_samples_to_file_def Let_def tw_def split: sum.splits)
      qed
      have r3: "r3 = Inl e' \<Longrightarrow> e' = IndexWriteFailed" for e'
        using w write_rf_data_index_Inl [of lib _ rows e' st3] by (auto split: if_splits)
      show ?thesis
        using r r3 unfolding eq
        by (auto split: if_splits sum.splits dest: advance_state_Inl)
    qed
  qed
qed

lemma write_samples_rejects:
  assumes "1 \<le> n" and "\<not> (sw = 0 \<and> g 0 < global_index st)"
    and "d 0 \<noteq> 0 \<or> \<not> indices_valid g d n"
  shows "\<exists>e. digital_rf_write_samples_to_file lib st sw g d n v vl = (Inl e, st) \<and> index_malformed e"
proof (cases "d 0 \<noteq> 0")
  case True
  then show ?thesis using assms(1) by (simp add: digital_rf_write_samples_to_file_def)
next
  case False
  then have "\<not> indices_valid g d n" using assms(3) by simp
  then obtain e where "digital_rf_create_rf_data_index st sw g d n = Inl e" "index_malformed e"
    using create_rf_data_index_rejects [of sw g st d n] assms(2) by blast
  then show ?thesis using assms(1) False by (simp add: digital_rf_write_samples_to_file_def)
qed

lemma write_loop_accepts:
  assumes "d 0 = 0" and "indices_valid g d n"
  shows "write_loop lib st sw g d n v vl = Some (Inl e, st') \<Longrightarrow> \<not> index_malformed e"
proof (induction "unat (vl - sw)" arbitrary: st sw rule: less_induct)
  case less
  show ?case
  proof (cases "sw < vl")
    case False
    then show ?thesis using less.prems by (simp add: write_loop.simps [of _ _ sw])
  next
    case True
    obtain r st1 where r: "digital_rf_write_samples_to_file lib st sw g d n v vl = (r, st1)"
      by (cases "digital_rf_write_samples_to_file lib st sw g d n v vl")
    show ?thesis
    proof (cases r)
      case (Inl e')
      then have "e' = e" using True r less.prems by (simp add: write_loop.simps [of _ _ sw])
      then show ?thesis using write_samples_accepts [OF assms] r Inl by blast
    next
      case (Inr k)
      show ?thesis
      proof (cases "k = 0")
        case True
        then have "e = NoSamplesWritten"
          using \<open>sw < vl\<close> r Inr less.prems by (simp add: write_loop.simps [of _ _ sw])
        then show ?thesis by simp
      next
        case False
        have "k \<le> vl - sw" using samples_written_le r Inr by blast
        then have m: "unat (vl - (sw + k)) < unat (vl - sw)"
          using loop_measure True False by blast
        have "write_loop lib st1 (sw + k) g d n v vl = Some (Inl e, st')"
          using \<open>sw < vl\<close> r Inr False less.prems by (simp add: write_loop.simps [of _ _ sw])
        then show ?thesis using less.hyps [OF m] by blast
      qed
    qed
  qed
qed

subsection \<open>Fill values\<close>

text \<open>
  What digital\_rf\_set\_fill\_value hands to HDF5 for the integer types and for 64-bit
  floats in the byte order of the host: the minimum of a signed type in the byte order of the
  type, zero for an unsigned type of at most 4 bytes (a wider one is read from the 4-byte
  \<open>minUnsignedInt\<close>, and past it), twice the bytes of the scalar for a complex type.
\<close>

lemma le_bytes_1: "le_bytes 1 v = [word_of_int v]"
  by (simp add: eval_nat_numeral)

lemma le_bytes_2: "le_bytes 2 v = [word_of_int v, word_of_int (v div 256)]"
  by (simp add: eval_nat_numeral)

lemma le_bytes_4:
  "le_bytes 4 v = [word_of_int v, word_of_int (v div 256), word_of_int (v div 256 div 256),
     word_of_int (v div 256 div 256 div 256)]"
  by (simp add: eval_nat_numeral)

lemma le_bytes_8:
  "le_bytes 8 v = [word_of_int v, word_of_int (v div 256), word_of_int (v div 256 div 256),
     word_of_int (v div 256 div 256 div 256), word_of_int (v div 256 div 256 div 256 div 256),
     word_of_int (v div 256 div 256 div 256 div 256 div 256),
     word_of_int (v div 256 div 256 div 256 div 256 div 256 div 256),
     word_of_int (v div 256 div 256 div 256 div 256 div 256 div 256 div 256)]"
  by (simp add: eval_nat_numeral)

lemma is_little_endian_host: "digital_rf_is_little_endian le = le"
  by (cases le) (simp_all add: digital_rf_is_little_endian_def host_bytes_def le_bytes_4)

lemmas byte_defs = host_bytes_def endian_flip_def is_little_endian_host
  float_fill_def double_fill_def le_bytes_1 le_bytes_2 le_bytes_4 le_bytes_8

lemmas value_defs = signed_value_def unsigned_value_def is_quiet_nan_def

lemma length_le_bytes: "length (le_bytes n v) = n"
  by (induction n arbitrary: v) simp_all

lemma length_host_bytes: "length (host_bytes le n v) = n"
  by (simp add: host_bytes_def length_le_bytes)

lemma le_bytes_zero: "le_bytes n 0 = replicate n 0"
  by (induction n) simp_all

lemma host_bytes_zero: "host_bytes le n 0 = replicate n 0"
  by (simp add: host_bytes_def le_bytes_zero)

lemma le_value_zero: "le_value (replicate n 0) = 0"
  by (induction n) simp_all

lemma unsigned_value_zero: "unsigned_value ord (replicate n 0) = 0"
  by (simp add: unsigned_value_def le_value_zero)

lemma set_fill_exact: "length bs = n \<Longrightarrow> H5Pset_fill_value n bs = FillBytes bs"
  by (simp add: H5Pset_fill_value_def)

lemma set_fill_pair: "length bs = n \<Longrightarrow> H5Pset_fill_value (2 * n) (bs @ bs) = FillBytes (bs @ bs)"
  by (simp add: H5Pset_fill_value_def)

text \<open>The branch the function takes.\<close>

lemma fill_float_scalar:
  assumes "dtype_class t = H5T_FLOAT"
  shows "digital_rf_set_fill_value le t False
     = Inr (H5Pset_fill_value (dtype_size t) (double_fill le))"
  unfolding digital_rf_set_fill_value_def Let_def by (simp add: assms)

lemma fill_double_complex:
  assumes "dtype_class t = H5T_FLOAT" "dtype_size t = 8"
  shows "digital_rf_set_fill_value le t True
     = Inr (H5Pset_fill_value (2 * 8) (double_fill le @ double_fill le))"
  unfolding digital_rf_set_fill_value_def Let_def by (simp add: assms)

lemma fill_unsigned:
  assumes "dtype_class t = H5T_INTEGER" "dtype_sign t = H5T_SGN_NONE"
  shows "digital_rf_set_fill_value le t False
     = Inr (H5Pset_fill_value (dtype_size t) (host_bytes le 4 0))"
  unfolding digital_rf_set_fill_value_def Let_def by (simp add: assms)

lemma fill_signed_1:
  assumes "dtype_class t = H5T_INTEGER" "dtype_sign t = H5T_SGN_2" "dtype_size t = 1"
  shows "digital_rf_set_fill_value le t False
     = Inr (H5Pset_fill_value 1 (host_bytes le 1 (- 128)))"
  unfolding digital_rf_set_fill_value_def Let_def by (simp add: assms)

lemma fill_signed_2:
  assumes "dtype_class t = H5T_INTEGER" "dtype_sign t = H5T_SGN_2" "dtype_size t = 2"
  shows "digital_rf_set_fill_value le t False
     = Inr (H5Pset_fill_value 2
         (host_bytes le 2 (min_int_pair 2 (endian_flip le (dtype_order t)))))"
  unfolding digital_rf_set_fill_value_def Let_def by (simp add: assms)

lemma fill_signed_4:
  assumes "dtype_class t = H5T_INTEGER" "dtype_sign t = H5T_SGN_2" "dtype_size t = 4"
  shows "digital_rf_set_fill_value le t False
     = Inr (H5Pset_fill_value 4
         (host_bytes le 4 (min_int_pair 4 (endian_flip le (dtype_order t)))))"
  unfolding digital_rf_set_fill_value_def Let_def by (simp add: assms)

lemma fill_signed_8:
  assumes "dtype_class t = H5T_INTEGER" "dtype_sign t = H5T_SGN_2" "dtype_size t = 8"
  shows "digital_rf_set_fill_value le t False
     = Inr (H5Pset_fill_value 8
         (host_bytes le 8 (min_int_pair 8 (endian_flip le (dtype_order t)))))"
  unfolding digital_rf_set_fill_value_def Let_def by (simp add: assms)

lemma fill_complex_1:
  assumes "dtype_class t = H5T_INTEGER" "dtype_size t = 1"
  shows "digital_rf_set_fill_value le t True
     = Inr (H5Pset_fill_value (2 * 1)
         (if dtype_sign t = H5T_SGN_NONE then host_bytes le 1 0 @ host_bytes le 1 0
          else host_bytes le 1 (- 128) @ host_bytes le 1 (- 128)))"
  unfolding digital_rf_set_fill_value_def Let_def by (simp add: assms)

lemma fill_complex_2:
  assumes "dtype_class t = H5T_INTEGER" "dtype_size t = 2"
  shows "digital_rf_set_fill_value le t True
     = Inr (H5Pset_fill_value (2 * 2)
         (if dtype_sign t = H5T_SGN_NONE then host_bytes le 2 0 @ host_bytes le 2 0
          else host_bytes le 2 (min_int_pair 2 (endian_flip le (dtype_order t)))
             @ host_bytes le 2 (min_int_pair 2 (endian_flip le (dtype_order t)))))"
  unfolding digital_rf_set_fill_value_def Let_def by (simp add: assms)

lemma fill_complex_4:
  assumes "dtype_class t = H5T_INTEGER" "dtype_size t = 4"
  shows "digital_rf_set_fill_value le t True
     = Inr (H5Pset_fill_value (2 * 4)
         (if dtype_sign t = H5T_SGN_NONE then host_bytes le 4 0 @ host_bytes le 4 0
          else host_bytes le 4 (min_int_pair 4 (endian_flip le (dtype_order t)))
             @ host_bytes le 4 (min_int_pair 4 (endian_flip le (dtype_order t)))))"
  unfolding digital_rf_set_fill_value_def Let_def by (simp add: assms)

lemma fill_complex_8:
  assumes "dtype_class t = H5T_INTEGER" "dtype_size t = 8"
  shows "digital_rf_set_fill_value le t True
     = Inr (H5Pset_fill_value (2 * 8)
         (if dtype_sign t = H5T_SGN_NONE then host_bytes le 8 0 @ host_bytes le 8 0
          else host_bytes le 8 (min_int_pair 8 (endian_flip le (dtype_order t)))
             @ host_bytes le 8 (min_int_pair 8 (endian_flip le (dtype_order t)))))"
  unfolding digital_rf_set_fill_value_def Let_def by (simp add: assms)

text \<open>The value of the bytes chosen, read in the byte order of the type.\<close>

lemma min_int_pair_2: "min_int_pair 2 0 = - 32768" "min_int_pair 2 (Suc 0) = 128"
  by (simp_all add: min_int_pair_def)

lemma min_int_pair_4: "min_int_pair 4 0 = - 2147483648" "min_int_pair 4 (Suc 0) = 128"
  by (simp_all add: min_int_pair_def)

lemma min_int_pair_8: "min_int_pair 8 0 = - 9223372036854775808" "min_int_pair 8 (Suc 0) = 128"
  by (simp_all add: min_int_pair_def)

lemma le_bytes_min_2: "le_bytes 2 (- 32768) = [0, 0x80]" "le_bytes 2 128 = [0x80, 0]"
  by (simp_all add: le_bytes_2)

lemma le_bytes_min_4:
  "le_bytes 4 (- 2147483648) = [0, 0, 0, 0x80]" "le_bytes 4 128 = [0x80, 0, 0, 0]"
  by (simp_all add: le_bytes_4)

lemma le_bytes_min_8:
  "le_bytes 8 (- 9223372036854775808) = [0, 0, 0, 0, 0, 0, 0, 0x80]"
  "le_bytes 8 128 = [0x80, 0, 0, 0, 0, 0, 0, 0]"
  by (simp_all add: le_bytes_8)

lemmas flip_defs = host_bytes_def endian_flip_def is_little_endian_host

lemma min_bytes_1: "host_bytes le 1 (- 128) = [0x80]"
  by (simp add: host_bytes_def le_bytes_1)

lemma min_bytes_2:
  assumes "ord = H5T_ORDER_LE \<or> ord = H5T_ORDER_BE"
  shows "host_bytes le 2 (min_int_pair 2 (endian_flip le ord))
     = (if ord = H5T_ORDER_BE then [0x80, 0] else [0, 0x80])"
  using assms by (cases le) (auto simp add: flip_defs min_int_pair_2 le_bytes_min_2)

lemma min_bytes_4:
  assumes "ord = H5T_ORDER_LE \<or> ord = H5T_ORDER_BE"
  shows "host_bytes le 4 (min_int_pair 4 (endian_flip le ord))
     = (if ord = H5T_ORDER_BE then [0x80, 0, 0, 0] else [0, 0, 0, 0x80])"
  using assms by (cases le) (auto simp add: flip_defs min_int_pair_4 le_bytes_min_4)

lemma min_bytes_8:
  assumes "ord = H5T_ORDER_LE \<or> ord = H5T_ORDER_BE"
  shows "host_bytes le 8 (min_int_pair 8 (endian_flip le ord))
     = (if ord = H5T_ORDER_BE then [0x80, 0, 0, 0, 0, 0, 0, 0] else [0, 0, 0, 0, 0, 0, 0, 0x80])"
  using assms by (cases le) (auto simp add: flip_defs min_int_pair_8 le_bytes_min_8)

lemma min_value_1: "signed_value ord (host_bytes le 1 (- 128)) = - (2 ^ (8 * 1 - 1))"
  unfolding min_bytes_1 by (simp add: value_defs)

lemma min_value_2:
  assumes "ord = H5T_ORDER_LE \<or> ord = H5T_ORDER_BE"
  shows "signed_value ord (host_bytes le 2 (min_int_pair 2 (endian_flip le ord)))
     = - (2 ^ (8 * 2 - 1))"
  unfolding min_bytes_2 [OF assms] by (simp add: value_defs)

lemma min_value_4:
  assumes "ord = H5T_ORDER_LE \<or> ord = H5T_ORDER_BE"
  shows "signed_value ord (host_bytes le 4 (min_int_pair 4 (endian_flip le ord)))
     = - (2 ^ (8 * 4 - 1))"
  unfolding min_bytes_4 [OF assms] by (simp add: value_defs)

lemma min_value_8:
  assumes "ord = H5T_ORDER_LE \<or> ord = H5T_ORDER_BE"
  shows "signed_value ord (host_bytes le 8 (min_int_pair 8 (endian_flip le ord)))
     = - (2 ^ (8 * 8 - 1))"
  unfolding min_bytes_8 [OF assms] by (simp add: value_defs)

lemma scalar_fill_intro:
  assumes v: "digital_rf_set_fill_value le t False = Inr (H5Pset_fill_value n bs)"
    and l: "length bs = n" and m: "signed_value (dtype_order t) bs = - (2 ^ (8 * n - 1))"
    and n: "dtype_size t = n"
  shows "\<exists>bs. digital_rf_set_fill_value le t False = Inr (FillBytes bs)
           \<and> length bs = dtype_size t
           \<and> signed_value (dtype_order t) bs = - (2 ^ (8 * dtype_size t - 1))"
proof -
  have "digital_rf_set_fill_value le t False = Inr (FillBytes bs)"
    unfolding v by (simp only: set_fill_exact [OF l])
  then show ?thesis
    using n l m by (intro exI [of _ bs]) simp
qed

lemma signed_fill_minimum:
  assumes c: "dtype_class t = H5T_INTEGER" and s: "dtype_sign t = H5T_SGN_2"
    and n: "dtype_size t = 1 \<or> dtype_size t = 2 \<or> dtype_size t = 4 \<or> dtype_size t = 8"
    and ord: "dtype_order t = H5T_ORDER_LE \<or> dtype_order t = H5T_ORDER_BE"
  shows "\<exists>bs. digital_rf_set_fill_value le t False = Inr (FillBytes bs)
           \<and> length bs = dtype_size t
           \<and> signed_value (dtype_order t) bs = - (2 ^ (8 * dtype_size t - 1))"
proof -
  consider "dtype_size t = 1" | "dtype_size t = 2" | "dtype_size t = 4" | "dtype_size t = 8"
    using n by blast
  then show ?thesis
  proof cases
    case 1
    show ?thesis
      by (rule scalar_fill_intro [OF fill_signed_1 [OF c s 1] length_host_bytes min_value_1 1])
  next
    case 2
    show ?thesis
      by (rule scalar_fill_intro
          [OF fill_signed_2 [OF c s 2] length_host_bytes min_value_2 [OF ord] 2])
  next
    case 3
    show ?thesis
      by (rule scalar_fill_intro
          [OF fill_signed_4 [OF c s 3] length_host_bytes min_value_4 [OF ord] 3])
  next
    case 4
    show ?thesis
      by (rule scalar_fill_intro
          [OF fill_signed_8 [OF c s 4] length_host_bytes min_value_8 [OF ord] 4])
  qed
qed

lemma unsigned_fill_zero:
  assumes c: "dtype_class t = H5T_INTEGER" and s: "dtype_sign t = H5T_SGN_NONE"
    and n: "dtype_size t \<le> 4"
  shows "\<exists>bs. digital_rf_set_fill_value le t False = Inr (FillBytes bs)
           \<and> length bs = dtype_size t
           \<and> unsigned_value (dtype_order t) bs = 0"
  unfolding fill_unsigned [OF c s] host_bytes_zero H5Pset_fill_value_def
  using n by (simp add: unsigned_value_zero min_def)

lemma unsigned_fill_wide:
  assumes c: "dtype_class t = H5T_INTEGER" and s: "dtype_sign t = H5T_SGN_NONE"
    and n: "4 < dtype_size t"
  shows "digital_rf_set_fill_value le t False = Inr FillIndeterminate"
  unfolding fill_unsigned [OF c s] H5Pset_fill_value_def
  using n by (simp add: length_host_bytes)

lemma complex_fill_pair:
  assumes v: "digital_rf_set_fill_value le t True = Inr (H5Pset_fill_value (2 * n)
      (if dtype_sign t = H5T_SGN_NONE then host_bytes le n 0 @ host_bytes le n 0
       else bs @ bs))"
    and l: "length bs = n" and m: "signed_value (dtype_order t) bs = - (2 ^ (8 * n - 1))"
    and n: "dtype_size t = n"
  shows "\<exists>bs. digital_rf_set_fill_value le t True = Inr (FillBytes (bs @ bs))
           \<and> length bs = dtype_size t
           \<and> (if dtype_sign t = H5T_SGN_NONE then unsigned_value (dtype_order t) bs = 0
               else signed_value (dtype_order t) bs = - (2 ^ (8 * dtype_size t - 1)))"
proof (cases "dtype_sign t = H5T_SGN_NONE")
  case True
  have e: "H5Pset_fill_value (2 * n) (replicate n 0 @ replicate n 0)
      = FillBytes (replicate n (0 :: byte) @ replicate n 0)"
    by (rule set_fill_pair) simp
  have "digital_rf_set_fill_value le t True = Inr (FillBytes (replicate n 0 @ replicate n 0))"
    unfolding v host_bytes_zero e [symmetric] by (simp add: True)
  then show ?thesis
    using True n unsigned_value_zero [of "dtype_order t" n]
    by (intro exI [of _ "replicate n 0"]) simp
next
  case False
  have "digital_rf_set_fill_value le t True = Inr (FillBytes (bs @ bs))"
    unfolding v by (simp only: False if_False set_fill_pair [OF l])
  then show ?thesis
    using False n l m by (intro exI [of _ bs]) simp
qed

lemma complex_integer_fill:
  assumes c: "dtype_class t = H5T_INTEGER"
    and n: "dtype_size t = 1 \<or> dtype_size t = 2 \<or> dtype_size t = 4 \<or> dtype_size t = 8"
    and ord: "dtype_order t = H5T_ORDER_LE \<or> dtype_order t = H5T_ORDER_BE"
  shows "\<exists>bs. digital_rf_set_fill_value le t True = Inr (FillBytes (bs @ bs))
           \<and> length bs = dtype_size t
           \<and> (if dtype_sign t = H5T_SGN_NONE then unsigned_value (dtype_order t) bs = 0
               else signed_value (dtype_order t) bs = - (2 ^ (8 * dtype_size t - 1)))"
proof -
  consider "dtype_size t = 1" | "dtype_size t = 2" | "dtype_size t = 4" | "dtype_size t = 8"
    using n by blast
  then show ?thesis
  proof cases
    case 1
    show ?thesis
      by (rule complex_fill_pair [OF fill_complex_1 [OF c 1] length_host_bytes min_value_1 1])
  next
    case 2
    show ?thesis
      by (rule complex_fill_pair
          [OF fill_complex_2 [OF c 2] length_host_bytes min_value_2 [OF ord] 2])
  next
    case 3
    show ?thesis
      by (rule complex_fill_pair
          [OF fill_complex_4 [OF c 3] length_host_bytes min_value_4 [OF ord] 3])
  next
    case 4
    show ?thesis
      by (rule complex_fill_pair
          [OF fill_complex_8 [OF c 4] length_host_bytes min_value_8 [OF ord] 4])
  qed
qed

lemma double_fill_value: "is_quiet_nan (if le then H5T_ORDER_LE else H5T_ORDER_BE) (double_fill le)"
  by (cases le) (simp_all add: byte_defs value_defs)

lemma length_double_fill: "length (double_fill le) = 8"
  by (simp add: double_fill_def length_host_bytes)

lemma double_fill_nan:
  assumes c: "dtype_class t = H5T_FLOAT" and n: "dtype_size t = 8"
    and ord: "dtype_order t = (if le then H5T_ORDER_LE else H5T_ORDER_BE)"
  shows "\<exists>bs. digital_rf_set_fill_value le t False = Inr (FillBytes bs)
           \<and> digital_rf_set_fill_value le t True = Inr (FillBytes (bs @ bs))
           \<and> is_quiet_nan (dtype_order t) bs"
proof -
  have a: "digital_rf_set_fill_value le t False = Inr (FillBytes (double_fill le))"
    by (simp only: fill_float_scalar [OF c] n set_fill_exact [OF length_double_fill])
  have b: "digital_rf_set_fill_value le t True = Inr (FillBytes (double_fill le @ double_fill le))"
    by (simp only: fill_double_complex [OF c n] set_fill_pair [OF length_double_fill])
  have q: "is_quiet_nan (dtype_order t) (double_fill le)"
    unfolding ord by (rule double_fill_value)
  show ?thesis
    using a b q by blast
qed

subsection \<open>How a slice and a call advance global\_index\<close>








lemma uint_lt64: "uint (x :: u64) < 2 ^ 64"
  using uint_bounded [of x] by simp






subsection \<open>Opening a file: sequence number, subdirectory and file name\<close>


lemma seq_mod_int:
  fixes s :: int and w :: u64
  assumes "0 \<le> s" and "s < 2 ^ 64"
  shows "((word_of_int s :: u64) mod w = 0) \<longleftrightarrow> (s mod uint w = 0)"
proof -
  have u: "uint (word_of_int s :: u64) = s"
    using assms by (simp add: uint_word_of_int take_bit_eq_mod)
  have "((word_of_int s :: u64) mod w = 0) \<longleftrightarrow> uint ((word_of_int s :: u64) mod w) = 0"
    by (simp add: uint_0_iff)
  also have "\<dots> \<longleftrightarrow> uint (word_of_int s :: u64) mod uint w = 0"
    by (simp add: uint_mod)
  finally show ?thesis using u by simp
qed

lemma sub_directory_of_seq [simp]:
  "sub_directory_of lib (st\<lparr>present_seq := s\<rparr>) nx = sub_directory_of lib st nx"
  by (simp add: sub_directory_of_def)

lemma create_new_directory_exists:
  assumes "sub_directory_of lib st nx = Inr sub" and "directory st @ sub \<in> set (fs_dirs st)"
  shows "digital_rf_create_new_directory lib st nx = (Inl MkdirFailed, st)"
  using assms by (simp add: digital_rf_create_new_directory_def)

lemma create_new_directory_ok:
  assumes "digital_rf_create_new_directory lib st nx = (Inr u, st')"
  shows "\<exists>sub. sub_directory_of lib st nx = Inr sub \<and>
           st' = st\<lparr>fs_dirs := fs_dirs st @ [directory st @ sub],
                    sub_directory := Some (sub @ ''/'')\<rparr>"
  using assms
  by (auto simp: digital_rf_create_new_directory_def Let_def split: sum.splits if_splits)

lemma create_hdf5_file_detail:
  assumes c: "digital_rf_create_hdf5_file lib st nx = (Inr u, st')"
  shows "present_seq st' = present_seq st + 1"
    and "files_per_directory st \<noteq> 0"
    and "(word_of_int (present_seq st + 1) :: u64) mod files_per_directory st = 0 \<Longrightarrow>
          \<exists>sub. sub_directory_of lib st nx = Inr sub \<and>
                fs_dirs st' = fs_dirs st @ [directory st @ sub] \<and>
                sub_directory st' = Some (sub @ ''/'')"
    and "(word_of_int (present_seq st + 1) :: u64) mod files_per_directory st \<noteq> 0 \<Longrightarrow>
          fs_dirs st' = fs_dirs st \<and> sub_directory st' = sub_directory st"
    and "\<exists>sub. sub_directory st' = Some sub \<and>
           fs_files st' = fs_files st @
             [\<lparr>file_name = directory st @ sub @ file_basename lib st nx,
               sequence_num = present_seq st + 1, rf_data = [], rf_data_index = []\<rparr>]"
proof -
  let ?st1 = "st\<lparr>present_seq := present_seq st + 1\<rparr>"
  show fpd: "files_per_directory st \<noteq> 0"
    using c by (auto simp: digital_rf_create_hdf5_file_def Let_def)
  obtain r2 st2 where d: "(if (word_of_int (present_seq ?st1) :: u64) mod files_per_directory ?st1 = 0
               then digital_rf_create_new_directory lib ?st1 nx
               else (Inr (), ?st1)) = (r2, st2)"
    by (cases "(if (word_of_int (present_seq ?st1) :: u64) mod files_per_directory ?st1 = 0
               then digital_rf_create_new_directory lib ?st1 nx
               else (Inr (), ?st1))")
  have r2: "r2 = Inr ()"
    using c d fpd by (cases r2) (auto simp: digital_rf_create_hdf5_file_def Let_def)
  obtain sub where sub: "sub_directory st2 = Some sub"
    using c d fpd r2
    by (cases "sub_directory st2") (auto simp: digital_rf_create_hdf5_file_def Let_def)
  have st': "st' = st2\<lparr>fs_files := fs_files st2 @
                               [\<lparr>file_name = directory st2 @ sub @ file_basename lib st nx,
                                 sequence_num = present_seq st2,
                                 rf_data = [], rf_data_index = []\<rparr>],
                            hdf5_file := Suc (length (fs_files st2)),
                            dataset_index := 0,
                            dataset_avail := samples_per_file st2\<rparr>"
    using c d fpd r2 sub
    by (auto simp: digital_rf_create_hdf5_file_def Let_def split: if_splits)
  have st2a: "(word_of_int (present_seq st + 1) :: u64) mod files_per_directory st = 0 \<Longrightarrow>
      \<exists>sub. sub_directory_of lib st nx = Inr sub \<and>
        st2 = ?st1\<lparr>fs_dirs := fs_dirs st @ [directory st @ sub],
                    sub_directory := Some (sub @ ''/'')\<rparr>"
    using d r2 create_new_directory_ok [of lib ?st1 nx "()" st2] by simp
  have st2b: "(word_of_int (present_seq st + 1) :: u64) mod files_per_directory st \<noteq> 0 \<Longrightarrow>
      st2 = ?st1"
    using d by simp
  have common: "present_seq st2 = present_seq st + 1 \<and> directory st2 = directory st
      \<and> fs_files st2 = fs_files st"
    using st2a st2b by (cases "(word_of_int (present_seq st + 1) :: u64) mod files_per_directory st = 0") auto
  show "present_seq st' = present_seq st + 1" using st' common by simp
  show "\<exists>sub. sub_directory_of lib st nx = Inr sub \<and>
                fs_dirs st' = fs_dirs st @ [directory st @ sub] \<and>
                sub_directory st' = Some (sub @ ''/'')"
    if "(word_of_int (present_seq st + 1) :: u64) mod files_per_directory st = 0"
    using st2a [OF that] st' by auto
  show "fs_dirs st' = fs_dirs st \<and> sub_directory st' = sub_directory st"
    if "(word_of_int (present_seq st + 1) :: u64) mod files_per_directory st \<noteq> 0"
    using st2b [OF that] st' by simp
  show "\<exists>sub. sub_directory st' = Some sub \<and>
           fs_files st' = fs_files st @
             [\<lparr>file_name = directory st @ sub @ file_basename lib st nx,
               sequence_num = present_seq st + 1, rf_data = [], rf_data_index = []\<rparr>]"
    using st' sub common by simp
qed

lemma create_hdf5_file_dir_exists:
  assumes "files_per_directory st \<noteq> 0"
    and "(word_of_int (present_seq st + 1) :: u64) mod files_per_directory st = 0"
    and "sub_directory_of lib st nx = Inr sub" and "directory st @ sub \<in> set (fs_dirs st)"
  shows "fst (digital_rf_create_hdf5_file lib st nx) = Inl MkdirFailed"
proof -
  let ?st1 = "st\<lparr>present_seq := present_seq st + 1\<rparr>"
  have "digital_rf_create_new_directory lib ?st1 nx = (Inl MkdirFailed, ?st1)"
    using create_new_directory_exists [of lib ?st1 nx sub] assms(3,4) by simp
  then show ?thesis
    using assms(1,2) by (simp add: digital_rf_create_hdf5_file_def Let_def)
qed

section \<open>The claims of the specification\<close>

text \<open>
  C6. digital\_rf\_write\_hdf5 (append\_continuous) given a leading global index, a buffer
  and a sample count returns the same result and leaves the same writer and the same files
  as digital\_rf\_write\_blocks\_hdf5 (append\_blocks) does with \<open>index_len = 1\<close> and any
  index arrays whose single entries are the leading global index and 0.
\<close>

theorem write_hdf5_is_single_block_write:
  assumes "global_index_arr 0 = global_leading_edge_index" and "data_index_arr 0 = 0"
  shows "digital_rf_write_hdf5 lib st global_leading_edge_index vector vector_length =
         digital_rf_write_blocks_hdf5 lib st global_index_arr data_index_arr 1 vector vector_length"
proof (cases vector)
  case None
  then show ?thesis
    by (simp add: digital_rf_write_hdf5_def digital_rf_write_blocks_hdf5_def)
next
  case (Some v)
  have "write_loop lib (set_chunking st vector_length) 0 (\<lambda>i. global_leading_edge_index) (\<lambda>i. 0) 1
          v vector_length =
        write_loop lib (set_chunking st vector_length) 0 global_index_arr data_index_arr 1
          v vector_length"
    by (rule write_loop_one_cong) (simp_all add: assms)
  then show ?thesis
    using Some assms by (simp add: digital_rf_write_hdf5_def digital_rf_write_blocks_hdf5_def)
qed

theorem write_hdf5_is_single_block_write_witness:
  "[7 :: u64] ! 0 = 7 \<and> [0 :: u64] ! 0 = 0 \<and>
   digital_rf_write_hdf5 demo_lib demo_writer 7 (Some demo_vector) 10 =
   digital_rf_write_blocks_hdf5 demo_lib demo_writer ((!) [7]) ((!) [0]) 1 (Some demo_vector) 10"
  using write_hdf5_is_single_block_write
          [of "(!) [7]" 7 "(!) [0]" demo_lib demo_writer "Some demo_vector" 10]
  by simp

text \<open>
  C4, as the claim states it, fails when the data pointer is NULL: the NULL check comes
  first, and the call fails with "Null data passed in" (return value -2), not with the
  error for a write before the cursor (return value -3). Here the writer expects global
  index 1000 and the call asks for 500.
\<close>

theorem write_before_cursor_counterexample:
  "(500 :: u64) < global_index (demo_writer\<lparr>global_index := 1000\<rparr>) \<and>
   digital_rf_write_hdf5 demo_lib (demo_writer\<lparr>global_index := 1000\<rparr>) 500 None 10 =
     Some (Inl NullData, demo_writer\<lparr>global_index := 1000\<rparr>) \<and>
   return_code (Inl NullData) \<noteq> return_code (Inl WriteBeforeCursor)"
  by (simp add: digital_rf_write_hdf5_def digital_rf_write_blocks_hdf5_def)

text \<open>
  C4, amended. For every writer and every call of digital\_rf\_write\_blocks\_hdf5 or
  digital\_rf\_write\_hdf5 with a data pointer that is not NULL and a first global index
  below \<open>global_index\<close> (next\_expected\_global), the call fails with the error for a write
  before the cursor, and the writer object and the files are what they were before the
  call.
\<close>

theorem write_before_cursor_rejected:
  assumes "vector = Some v"
  shows "(global_index_arr 0 < global_index st \<longrightarrow>
            digital_rf_write_blocks_hdf5 lib st global_index_arr data_index_arr index_len
              vector vector_length = Some (Inl WriteBeforeCursor, st)) \<and>
         (global_leading_edge_index < global_index st \<longrightarrow>
            digital_rf_write_hdf5 lib st global_leading_edge_index vector vector_length
              = Some (Inl WriteBeforeCursor, st))"
  using assms by (simp add: digital_rf_write_hdf5_def digital_rf_write_blocks_hdf5_def)

theorem write_before_cursor_rejected_witness:
  "Some demo_vector = Some demo_vector \<and>
   (500 :: u64) < global_index (demo_writer\<lparr>global_index := 1000\<rparr>) \<and>
   digital_rf_write_blocks_hdf5 demo_lib (demo_writer\<lparr>global_index := 1000\<rparr>)
     ((!) [500, 600]) ((!) [0, 5]) 2 (Some demo_vector) 10
     = Some (Inl WriteBeforeCursor, demo_writer\<lparr>global_index := 1000\<rparr>) \<and>
   digital_rf_write_hdf5 demo_lib (demo_writer\<lparr>global_index := 1000\<rparr>) 500 (Some demo_vector) 10
     = Some (Inl WriteBeforeCursor, demo_writer\<lparr>global_index := 1000\<rparr>)"
  using write_before_cursor_rejected
          [of "Some demo_vector" demo_vector "(!) [500, 600]" "demo_writer\<lparr>global_index := 1000\<rparr>"
              demo_lib "(!) [0, 5]" 2 10 500]
  by simp

text \<open>
  C10. The loop \<open>while (samples_written < vector_length)\<close> of
  digital\_rf\_write\_blocks\_hdf5 terminates: the call returns for every input. For a
  writer between two slices (\<open>writer_ok\<close>, which includes \<open>samples_per_file \<ge> 1\<close>) and
  \<open>samples_written < vector_length\<close>, an iteration either returns an error or writes
  \<open>min (vector_length - samples_written) dataset_avail\<close> samples, where \<open>dataset_avail\<close> is
  \<open>samples_per_file\<close> when the iteration had to open a new file; this number is at least 1,
  so \<open>samples_written\<close> strictly increases and stays at most \<open>vector_length\<close>, and the writer
  is again between two slices.
\<close>

theorem write_loop_terminates:
  "(\<exists>r. digital_rf_write_blocks_hdf5 lib st global_index_arr data_index_arr index_len
           vector vector_length = Some r) \<and>
   (writer_ok st \<and> samples_written < vector_length \<longrightarrow>
      (case digital_rf_write_samples_to_file lib st samples_written global_index_arr
              data_index_arr index_len v vector_length of
         (Inl e, st') \<Rightarrow> True
       | (Inr k, st') \<Rightarrow>
           k = min (vector_length - samples_written)
                 (if hdf5_file st = 0 then samples_per_file st else dataset_avail st) \<and>
           1 \<le> k \<and> samples_written < samples_written + k \<and>
           samples_written + k \<le> vector_length \<and> writer_ok st'))"
proof (intro conjI impI)
  show "\<exists>r. digital_rf_write_blocks_hdf5 lib st global_index_arr data_index_arr index_len
           vector vector_length = Some r"
    by (rule write_blocks_total)
next
  assume h: "writer_ok st \<and> samples_written < vector_length"
  obtain r st' where r: "digital_rf_write_samples_to_file lib st samples_written global_index_arr
              data_index_arr index_len v vector_length = (r, st')"
    by (cases "digital_rf_write_samples_to_file lib st samples_written global_index_arr
              data_index_arr index_len v vector_length")
  show "case digital_rf_write_samples_to_file lib st samples_written global_index_arr
              data_index_arr index_len v vector_length of
         (Inl e, st') \<Rightarrow> True
       | (Inr k, st') \<Rightarrow>
           k = min (vector_length - samples_written)
                 (if hdf5_file st = 0 then samples_per_file st else dataset_avail st) \<and>
           1 \<le> k \<and> samples_written < samples_written + k \<and>
           samples_written + k \<le> vector_length \<and> writer_ok st'"
  proof (cases r)
    case (Inl e)
    then show ?thesis using r by simp
  next
    case (Inr k)
    then have r': "digital_rf_write_samples_to_file lib st samples_written global_index_arr
              data_index_arr index_len v vector_length = (Inr k, st')"
      using r by simp
    show ?thesis
      using write_samples_progress(1-5) [OF conjunct1 [OF h] conjunct2 [OF h] r'] r'
      by simp
  qed
qed

theorem write_loop_terminates_witness:
  "writer_ok demo_writer \<and> (0 :: u64) < 10 \<and>
   (\<exists>r. digital_rf_write_blocks_hdf5 demo_lib demo_writer ((!) [0]) ((!) [0]) 1
           (Some demo_vector) 10 = Some r) \<and>
   (case digital_rf_write_samples_to_file demo_lib demo_writer 0 ((!) [0]) ((!) [0]) 1
           demo_vector 10 of
      (Inl e, st') \<Rightarrow> True
    | (Inr k, st') \<Rightarrow>
        k = min (10 - 0) (if hdf5_file demo_writer = 0 then samples_per_file demo_writer
                          else dataset_avail demo_writer) \<and>
        1 \<le> k \<and> 0 < 0 + k \<and> 0 + k \<le> 10 \<and> writer_ok st') \<and>
   fst (digital_rf_write_samples_to_file demo_lib demo_writer 0 ((!) [0]) ((!) [0]) 1
          demo_vector 10) = Inr 4"
proof -
  have ok: "writer_ok demo_writer"
    by (simp add: writer_ok_def demo_writer_def)
  have ev: "fst (digital_rf_write_samples_to_file demo_lib demo_writer 0 ((!) [0]) ((!) [0]) 1
          demo_vector 10) = Inr 4"
    by code_simp
  show ?thesis
    using ok ev
      write_loop_terminates [of demo_lib demo_writer "(!) [0]" "(!) [0]" 1 "Some demo_vector" 10
        0 demo_vector]
    by simp
qed

text \<open>
  Claim C2: in an iteration of the write loop a user pair \<open>(g i, b i)\<close> produces a row of
  \<open>rf_data_index\<close> if and only if \<open>first \<le> b i < end\<close> and it is not a suppressed
  continuation, and the row is \<open>(g i + global_start_sample, b i + dataset_index -
  samples_written)\<close>. This is not what the code does when a pair is suppressed and a later
  pair lies in the same slice. The writer \<open>demo_writer_mid\<close> has written samples 0 and 1 of a
  file of 4; the next block has the pairs \<open>(2, 0)\<close>, a continuation, and \<open>(10, 1)\<close>, a gap
  after one sample, which should give the single row \<open>(1010, 3)\<close>. The first pass counts one
  row, the second pass writes a boundary row and then the row of the gap past the end of
  the array, and the assertion \<open>rows_written == row_count\<close> fails: no row is produced and
  the write fails.
\<close>

theorem index_row_lost_after_continuation:
  "map_option fst (digital_rf_write_hdf5 demo_lib demo_writer 0 (Some demo_vector) 2)
     = Some (Inr ())
   \<and> writer_ok demo_writer_mid
   \<and> dataset_index demo_writer_mid = 2 \<and> global_index demo_writer_mid = 2
   \<and> samples_per_file demo_writer_mid = 4
   \<and> index_ignored demo_writer_mid 0 ([0, 1] ! 0) ([2, 10] ! 0)
   \<and> index_in_file demo_writer_mid 0 ([0, 1] ! 1)
   \<and> \<not> index_ignored demo_writer_mid 0 ([0, 1] ! 1) ([2, 10] ! 1)
   \<and> count_index_rows demo_writer_mid 0 ((!) [2, 10]) ((!) [0, 1]) 2 0 0 False 0
       = Inr (True, 1)
   \<and> digital_rf_create_rf_data_index demo_writer_mid 0 ((!) [2, 10]) ((!) [0, 1]) 2
       = Inl BufferOverrun
   \<and> map_option fst
       (digital_rf_write_blocks_hdf5 demo_lib demo_writer_mid ((!) [2, 10]) ((!) [0, 1]) 2
          (Some demo_vector) 2)
       = Some (Inl BufferOverrun)"
  by code_simp

text \<open>
  C3. Whenever a slice opens a file (no file was open when
  digital\_rf\_write\_samples\_to\_file was entered) and succeeds, the new file, the last in
  \<open>fs_files\<close>, holds the rows that digital\_rf\_create\_rf\_data\_index returned for the
  slice; there is at least one row, and the first row has in-file position 0. When no
  user pair lies at the first buffer position of the slice, or every pair in the range of
  the file was suppressed, the first row is the synthetic row
  \<open>(global_index + global_start_sample, 0)\<close>. The sample counts are such that
  \<open>samples_written + samples_per_file\<close> does not exceed 64 bits, as is the case for
  every buffer that fits in memory.
\<close>

theorem new_file_has_boundary_row:
  assumes "writer_ok st" and "hdf5_file st = 0"
    and "unat samples_written + unat (samples_per_file st) < 2 ^ 64"
    and "digital_rf_write_samples_to_file lib st samples_written global_index_arr data_index_arr
           index_len vector vector_length = (Inr k, st')"
  shows "length (fs_files st') = Suc (length (fs_files st)) \<and>
         digital_rf_create_rf_data_index st samples_written global_index_arr data_index_arr
           index_len = Inr (rf_data_index (last (fs_files st'))) \<and>
         rf_data_index (last (fs_files st')) \<noteq> [] \<and>
         snd (hd (rf_data_index (last (fs_files st')))) = 0 \<and>
         ((\<forall>i<index_len. data_index_arr i \<noteq> samples_written) \<or>
          (\<forall>i<index_len. index_in_file st samples_written (data_index_arr i) \<longrightarrow>
                index_ignored st samples_written (data_index_arr i) (global_index_arr i))
          \<longrightarrow> hd (rf_data_index (last (fs_files st')))
                = (global_index st + global_start_sample st, 0))"
proof -
  obtain rows where rows:
    "digital_rf_create_rf_data_index st samples_written global_index_arr data_index_arr
       index_len = Inr rows"
    using assms(4) by (rule write_samples_success)
  note n = new_file_index [OF assms(1,2,3) rows]
  note f = new_file_rows [OF assms(1,2,4) rows n(1)]
  show ?thesis
    using n f rows by simp
qed

theorem new_file_has_boundary_row_witness:
  "writer_ok (demo_writer\<lparr>global_index := 4\<rparr>) \<and>
   hdf5_file (demo_writer\<lparr>global_index := 4\<rparr>) = 0 \<and>
   unat (4 :: u64) + unat (samples_per_file (demo_writer\<lparr>global_index := 4\<rparr>)) < 2 ^ 64 \<and>
   fst (digital_rf_write_samples_to_file demo_lib (demo_writer\<lparr>global_index := 4\<rparr>) 4
          ((!) [0, 20]) ((!) [0, 6]) 2 demo_vector 10) = Inr 4 \<and>
   rf_data_index (last (fs_files (snd
     (digital_rf_write_samples_to_file demo_lib (demo_writer\<lparr>global_index := 4\<rparr>) 4
          ((!) [0, 20]) ((!) [0, 6]) 2 demo_vector 10)))) = [(1004, 0), (1020, 2)] \<and>
   [0, 6 :: u64] ! 0 \<noteq> 4 \<and> [0, 6 :: u64] ! 1 \<noteq> 4 \<and>
   hd (rf_data_index (last (fs_files (snd
     (digital_rf_write_samples_to_file demo_lib (demo_writer\<lparr>global_index := 4\<rparr>) 4
          ((!) [0, 20]) ((!) [0, 6]) 2 demo_vector 10)))))
     = (global_index (demo_writer\<lparr>global_index := 4\<rparr>)
        + global_start_sample (demo_writer\<lparr>global_index := 4\<rparr>), 0)"
proof -
  let ?st = "demo_writer\<lparr>global_index := 4\<rparr>"
  let ?r = "digital_rf_write_samples_to_file demo_lib ?st 4 ((!) [0, 20]) ((!) [0, 6]) 2
              demo_vector 10"
  have ok: "writer_ok ?st" by (simp add: writer_ok_def demo_writer_def)
  have cl: "hdf5_file ?st = 0" by (simp add: demo_writer_def)
  have nov: "unat (4 :: u64) + unat (samples_per_file ?st) < 2 ^ 64"
    by (simp add: demo_writer_def)
  have ev: "fst ?r = Inr 4" by code_simp
  have ev2: "rf_data_index (last (fs_files (snd ?r))) = [(1004, 0), (1020, 2)]" by code_simp
  have r: "?r = (Inr 4, snd ?r)" using ev by (metis prod.collapse)
  have nf: "\<forall>i<2. [0, 6 :: u64] ! i \<noteq> 4"
  proof (intro allI impI)
    fix i :: nat
    assume "i < 2"
    then have "i = 0 \<or> i = 1" by auto
    then show "[0, 6 :: u64] ! i \<noteq> 4" by auto
  qed
  have c: "hd (rf_data_index (last (fs_files (snd ?r))))
             = (global_index ?st + global_start_sample ?st, 0)"
    using nf new_file_has_boundary_row [OF ok cl nov r] by blast
  have n0: "[0, 6 :: u64] ! 0 \<noteq> 4" by simp
  have n1: "[0, 6 :: u64] ! 1 \<noteq> 4" by simp
  show ?thesis
    by (intro conjI ok cl nov ev ev2 n0 n1 c)
qed

text \<open>
  C5, as the claim states it, fails for a call with no samples: the index arrays are
  checked inside the write loop only, so with \<open>vector_length = 0\<close> the call returns
  success although the first data index is 7.
\<close>

theorem index_contract_counterexample:
  "[7 :: u64] ! 0 \<noteq> 0 \<and>
   digital_rf_write_blocks_hdf5 demo_lib demo_writer ((!) [0]) ((!) [7]) 1 (Some demo_vector) 0
     = Some (Inr (), demo_writer)"
  by (simp add: digital_rf_write_blocks_hdf5_def set_chunking_def demo_writer_def
        write_loop.simps [of _ _ 0])

text \<open>
  C5, amended. A call of digital\_rf\_write\_blocks\_hdf5 with a data pointer that is not
  NULL, \<open>index_len \<ge> 1\<close>, at least one sample, and a first global index that is not
  before \<open>global_index\<close> fails with one of the errors for malformed index arrays whenever
  the first data index is not 0, or the data indices are not strictly increasing, or for
  two consecutive entries with non-decreasing global indices the advance of the data
  index exceeds the advance of the global index. And when the first data index is 0, the
  data indices are strictly increasing and no advance of the data index exceeds the
  advance of the global index (as integers), the call does not end with any of these
  errors. Advances are differences of the unsigned values (\<open>uint\<close>).
\<close>

theorem index_contract_checked:
  assumes "vector = Some v" and "1 \<le> index_len"
  shows "(\<not> global_index_arr 0 < global_index st \<and> 0 < vector_length \<and>
          (data_index_arr 0 \<noteq> 0 \<or>
           (\<exists>i. 0 < i \<and> i < index_len \<and> data_index_arr i \<le> data_index_arr (i - 1)) \<or>
           (\<exists>i. 0 < i \<and> i < index_len \<and> global_index_arr (i - 1) \<le> global_index_arr i \<and>
                uint (global_index_arr i) - uint (global_index_arr (i - 1))
                  < uint (data_index_arr i) - uint (data_index_arr (i - 1))))
          \<longrightarrow> (\<exists>e st'. digital_rf_write_blocks_hdf5 lib st global_index_arr data_index_arr index_len
                          vector vector_length = Some (Inl e, st') \<and> index_malformed e)) \<and>
         (data_index_arr 0 = 0 \<and>
          (\<forall>i. 0 < i \<and> i < index_len \<longrightarrow>
                data_index_arr (i - 1) < data_index_arr i \<and>
                uint (data_index_arr i) - uint (data_index_arr (i - 1))
                  \<le> uint (global_index_arr i) - uint (global_index_arr (i - 1)))
          \<longrightarrow> (\<forall>e st'. digital_rf_write_blocks_hdf5 lib st global_index_arr data_index_arr index_len
                          vector vector_length = Some (Inl e, st') \<longrightarrow> \<not> index_malformed e))"
proof (intro conjI impI)
  assume h: "\<not> global_index_arr 0 < global_index st \<and> 0 < vector_length \<and>
          (data_index_arr 0 \<noteq> 0 \<or>
           (\<exists>i. 0 < i \<and> i < index_len \<and> data_index_arr i \<le> data_index_arr (i - 1)) \<or>
           (\<exists>i. 0 < i \<and> i < index_len \<and> global_index_arr (i - 1) \<le> global_index_arr i \<and>
                uint (global_index_arr i) - uint (global_index_arr (i - 1))
                  < uint (data_index_arr i) - uint (data_index_arr (i - 1))))"
  let ?st1 = "set_chunking st vector_length"
  have gi: "global_index ?st1 = global_index st" by (simp add: set_chunking_def)
  have bad: "data_index_arr 0 \<noteq> 0 \<or> \<not> indices_valid global_index_arr data_index_arr index_len"
  proof -
    have "\<not> indices_valid global_index_arr data_index_arr index_len"
      if "\<exists>i. 0 < i \<and> i < index_len \<and> data_index_arr i \<le> data_index_arr (i - 1)"
      using that unfolding indices_valid_def by (auto simp: not_less)
    moreover have "\<not> indices_valid global_index_arr data_index_arr index_len"
      if "\<exists>i. 0 < i \<and> i < index_len \<and> global_index_arr (i - 1) \<le> global_index_arr i \<and>
                uint (global_index_arr i) - uint (global_index_arr (i - 1))
                  < uint (data_index_arr i) - uint (data_index_arr (i - 1))"
    proof -
      from that obtain i where i: "0 < i" "i < index_len"
        "global_index_arr (i - 1) \<le> global_index_arr i"
        "uint (global_index_arr i) - uint (global_index_arr (i - 1))
           < uint (data_index_arr i) - uint (data_index_arr (i - 1))"
        by blast
      have "\<not> (data_index_arr (i - 1) < data_index_arr i \<and>
               data_index_arr i - data_index_arr (i - 1)
                 \<le> global_index_arr i - global_index_arr (i - 1))"
        using advance_bad_word [OF i(3,4)] .
      then show ?thesis using i(1,2) unfolding indices_valid_def by blast
    qed
    ultimately show ?thesis using h by blast
  qed
  have nb: "\<not> ((0 :: u64) = 0 \<and> global_index_arr 0 < global_index ?st1)"
    using h gi by simp
  obtain e where e: "digital_rf_write_samples_to_file lib ?st1 0 global_index_arr data_index_arr
                       index_len v vector_length = (Inl e, ?st1)" "index_malformed e"
    using write_samples_rejects [OF assms(2) nb bad] by blast
  have "digital_rf_write_blocks_hdf5 lib st global_index_arr data_index_arr index_len
          vector vector_length = Some (Inl e, ?st1)"
    using assms(1) h e(1)
    by (simp add: digital_rf_write_blocks_hdf5_def write_loop.simps [of _ _ 0])
  then show "\<exists>e st'. digital_rf_write_blocks_hdf5 lib st global_index_arr data_index_arr index_len
                          vector vector_length = Some (Inl e, st') \<and> index_malformed e"
    using e(2) by blast
next
  assume h: "data_index_arr 0 = 0 \<and>
          (\<forall>i. 0 < i \<and> i < index_len \<longrightarrow>
                data_index_arr (i - 1) < data_index_arr i \<and>
                uint (data_index_arr i) - uint (data_index_arr (i - 1))
                  \<le> uint (global_index_arr i) - uint (global_index_arr (i - 1)))"
  have valid: "indices_valid global_index_arr data_index_arr index_len"
    unfolding indices_valid_def using h advance_ok_word by blast
  show "\<forall>e st'. digital_rf_write_blocks_hdf5 lib st global_index_arr data_index_arr index_len
                          vector vector_length = Some (Inl e, st') \<longrightarrow> \<not> index_malformed e"
  proof (intro allI impI)
    fix e st'
    assume r: "digital_rf_write_blocks_hdf5 lib st global_index_arr data_index_arr index_len
                          vector vector_length = Some (Inl e, st')"
    show "\<not> index_malformed e"
    proof (cases "global_index_arr 0 < global_index st")
      case True
      then have "e = WriteBeforeCursor"
        using r assms(1) by (simp add: digital_rf_write_blocks_hdf5_def)
      then show ?thesis by simp
    next
      case False
      then have "write_loop lib (set_chunking st vector_length) 0 global_index_arr data_index_arr
                   index_len v vector_length = Some (Inl e, st')"
        using r assms(1) by (simp add: digital_rf_write_blocks_hdf5_def)
      then show ?thesis using write_loop_accepts [OF conjunct1 [OF h] valid] by blast
    qed
  qed
qed

theorem index_contract_checked_witness:
  "Some demo_vector = Some demo_vector \<and> (1 :: nat) \<le> 2 \<and>
   \<not> [0, 5 :: u64] ! 0 < global_index demo_writer \<and> (0 :: u64) < 10 \<and>
   (0 :: nat) < 1 \<and> (1 :: nat) < 2 \<and> [0, 5 :: u64] ! (1 - 1) \<le> [0, 5] ! 1 \<and>
   uint ([0, 5 :: u64] ! 1) - uint ([0, 5 :: u64] ! (1 - 1))
     < uint ([0, 6 :: u64] ! 1) - uint ([0, 6 :: u64] ! (1 - 1)) \<and>
   digital_rf_write_blocks_hdf5 demo_lib demo_writer ((!) [0, 5]) ((!) [0, 6]) 2
     (Some demo_vector) 10 = Some (Inl (IndicesAdvancingFaster 1), demo_writer) \<and>
   (\<exists>e st'. digital_rf_write_blocks_hdf5 demo_lib demo_writer ((!) [0, 5]) ((!) [0, 6]) 2
               (Some demo_vector) 10 = Some (Inl e, st') \<and> index_malformed e) \<and>
   [0, 6 :: u64] ! 0 = 0 \<and>
   [0, 6 :: u64] ! (1 - 1) < [0, 6] ! 1 \<and>
   uint ([0, 6 :: u64] ! 1) - uint ([0, 6 :: u64] ! (1 - 1))
     \<le> uint ([0, 20 :: u64] ! 1) - uint ([0, 20 :: u64] ! (1 - 1)) \<and>
   map_option fst (digital_rf_write_blocks_hdf5 demo_lib demo_writer ((!) [0, 20]) ((!) [0, 6]) 2
                     (Some demo_vector) 10) = Some (Inr ()) \<and>
   \<not> (\<exists>e st'. digital_rf_write_blocks_hdf5 demo_lib demo_writer ((!) [0, 20]) ((!) [0, 6]) 2
               (Some demo_vector) 10 = Some (Inl e, st') \<and> index_malformed e)"
proof -
  have v: "Some demo_vector = Some demo_vector" by simp
  have n: "(1 :: nat) \<le> 2" by simp
  have a1: "\<not> [0, 5 :: u64] ! 0 < global_index demo_writer" by (simp add: demo_writer_def)
  have a2: "(0 :: nat) < 1 \<and> (1 :: nat) < 2 \<and> [0, 5 :: u64] ! (1 - 1) \<le> [0, 5] ! 1 \<and>
     uint ([0, 5 :: u64] ! 1) - uint ([0, 5 :: u64] ! (1 - 1))
       < uint ([0, 6 :: u64] ! 1) - uint ([0, 6 :: u64] ! (1 - 1))"
    by simp
  have ev1: "digital_rf_write_blocks_hdf5 demo_lib demo_writer ((!) [0, 5]) ((!) [0, 6]) 2
     (Some demo_vector) 10 = Some (Inl (IndicesAdvancingFaster 1), demo_writer)"
    by code_simp
  have b: "\<forall>i. 0 < i \<and> i < 2 \<longrightarrow>
        [0, 6 :: u64] ! (i - 1) < [0, 6] ! i \<and>
        uint ([0, 6 :: u64] ! i) - uint ([0, 6 :: u64] ! (i - 1))
          \<le> uint ([0, 20 :: u64] ! i) - uint ([0, 20 :: u64] ! (i - 1))"
  proof (intro allI impI)
    fix i :: nat
    assume "0 < i \<and> i < 2"
    then have "i = 1" by auto
    then show "[0, 6 :: u64] ! (i - 1) < [0, 6] ! i \<and>
        uint ([0, 6 :: u64] ! i) - uint ([0, 6 :: u64] ! (i - 1))
          \<le> uint ([0, 20 :: u64] ! i) - uint ([0, 20 :: u64] ! (i - 1))"
      by simp
  qed
  have ev2: "map_option fst (digital_rf_write_blocks_hdf5 demo_lib demo_writer ((!) [0, 20])
               ((!) [0, 6]) 2 (Some demo_vector) 10) = Some (Inr ())"
    by code_simp
  note t1 = index_contract_checked [OF v n, of "(!) [0, 5]" demo_writer 10 "(!) [0, 6]" demo_lib]
  note t2 = index_contract_checked [OF v n, of "(!) [0, 20]" demo_writer 10 "(!) [0, 6]" demo_lib]
  have c1: "\<exists>e st'. digital_rf_write_blocks_hdf5 demo_lib demo_writer ((!) [0, 5]) ((!) [0, 6]) 2
               (Some demo_vector) 10 = Some (Inl e, st') \<and> index_malformed e"
  proof -
    have z: "(0 :: u64) < 10" by simp
    have ex: "\<exists>i. 0 < i \<and> i < 2 \<and> [0, 5 :: u64] ! (i - 1) \<le> [0, 5] ! i \<and>
                uint ([0, 5 :: u64] ! i) - uint ([0, 5 :: u64] ! (i - 1))
                  < uint ([0, 6 :: u64] ! i) - uint ([0, 6 :: u64] ! (i - 1))"
      by (rule exI [of _ 1]) (rule a2)
    show ?thesis using t1 a1 z ex by blast
  qed
  have c2: "\<forall>e st'. digital_rf_write_blocks_hdf5 demo_lib demo_writer ((!) [0, 20]) ((!) [0, 6]) 2
               (Some demo_vector) 10 = Some (Inl e, st') \<longrightarrow> \<not> index_malformed e"
  proof -
    have "[0, 6 :: u64] ! 0 = 0" by simp
    then show ?thesis using t2 b by blast
  qed
  have z: "(0 :: u64) < 10" by simp
  have d0: "[0, 6 :: u64] ! 0 = 0" by simp
  have b1: "[0, 6 :: u64] ! (1 - 1) < [0, 6] ! 1" by simp
  have b2: "uint ([0, 6 :: u64] ! 1) - uint ([0, 6 :: u64] ! (1 - 1))
     \<le> uint ([0, 20 :: u64] ! 1) - uint ([0, 20 :: u64] ! (1 - 1))" by simp
  have c2': "\<not> (\<exists>e st'. digital_rf_write_blocks_hdf5 demo_lib demo_writer ((!) [0, 20])
               ((!) [0, 6]) 2 (Some demo_vector) 10 = Some (Inl e, st') \<and> index_malformed e)"
    using c2 by blast
  show ?thesis
    by (intro conjI v n a1 z ev1 c1 d0 b1 b2 ev2 c2' a2 [THEN conjunct1]
          a2 [THEN conjunct2, THEN conjunct1]
          a2 [THEN conjunct2, THEN conjunct2, THEN conjunct1]
          a2 [THEN conjunct2, THEN conjunct2, THEN conjunct2])
qed




text \<open>
  C7. When digital\_rf\_create\_hdf5\_file opens a file, \<open>present_seq\<close> has been incremented,
  and a new subdirectory has been created (appended to the directories on disk and made
  the current \<open>sub_directory\<close>) if and only if the new sequence number modulo
  \<open>files_per_directory\<close> is 0; otherwise the directories are unchanged. The new file is
  appended to the files on disk under the name \<open>directory\<close>, \<open>sub_directory\<close>,
  \<open>rf@\<close>, the \<open>%011.3f\<close> format of \<open>(next_global_sample + global_start_sample) /
  sample_rate\<close>, \<open>.h5\<close>. Creating the subdirectory fails, and with it the file open, when
  the target directory already exists. The sequence number is a C int that is not
  negative after the increment; the double division and \<open>printf\<close> are those of the
  platform (\<open>c_lib\<close>).
\<close>

theorem file_open_rotation:
  "(digital_rf_create_hdf5_file lib st next_global_sample = (Inr (), st') \<and>
    - 1 \<le> present_seq st \<and> present_seq st + 1 < 2 ^ 64 \<longrightarrow>
      present_seq st' = present_seq st + 1 \<and>
      ((\<exists>sub. sub_directory_of lib st next_global_sample = Inr sub \<and>
              fs_dirs st' = fs_dirs st @ [directory st @ sub] \<and>
              sub_directory st' = Some (sub @ ''/''))
        \<longleftrightarrow> present_seq st' mod uint (files_per_directory st) = 0) \<and>
      (fs_dirs st' = fs_dirs st
        \<longleftrightarrow> present_seq st' mod uint (files_per_directory st) \<noteq> 0) \<and>
      (\<exists>sub. sub_directory st' = Some sub \<and>
             fs_files st' = fs_files st @
               [\<lparr>file_name = directory st @ sub @ ''rf@''
                    @ sprintf_011_3f lib
                        (ddiv lib (double_of_u64 lib (next_global_sample + global_start_sample st))
                           (sample_rate st))
                    @ ''.h5'',
                 sequence_num = present_seq st', rf_data = [], rf_data_index = []\<rparr>])) \<and>
   (sub_directory_of lib st next_global_sample = Inr sub' \<and>
    directory st @ sub' \<in> set (fs_dirs st) \<longrightarrow>
      digital_rf_create_new_directory lib st next_global_sample = (Inl MkdirFailed, st) \<and>
      (files_per_directory st \<noteq> 0 \<and> - 1 \<le> present_seq st \<and> present_seq st + 1 < 2 ^ 64 \<and>
       (present_seq st + 1) mod uint (files_per_directory st) = 0 \<longrightarrow>
         fst (digital_rf_create_hdf5_file lib st next_global_sample) = Inl MkdirFailed))"
proof (intro conjI impI)
  assume h: "digital_rf_create_hdf5_file lib st next_global_sample = (Inr (), st') \<and>
    - 1 \<le> present_seq st \<and> present_seq st + 1 < 2 ^ 64"
  then have c: "digital_rf_create_hdf5_file lib st next_global_sample = (Inr (), st')" by simp
  note d = create_hdf5_file_detail [OF c]
  have m: "((word_of_int (present_seq st + 1) :: u64) mod files_per_directory st = 0)
           \<longleftrightarrow> ((present_seq st + 1) mod uint (files_per_directory st) = 0)"
    using h by (intro seq_mod_int) simp_all
  show seq: "present_seq st' = present_seq st + 1" by (rule d(1))
  show "(\<exists>sub. sub_directory_of lib st next_global_sample = Inr sub \<and>
              fs_dirs st' = fs_dirs st @ [directory st @ sub] \<and>
              sub_directory st' = Some (sub @ ''/''))
        \<longleftrightarrow> present_seq st' mod uint (files_per_directory st) = 0"
    using d(3) d(4) m seq by auto
  show "fs_dirs st' = fs_dirs st
        \<longleftrightarrow> present_seq st' mod uint (files_per_directory st) \<noteq> 0"
    using d(3) d(4) m seq by auto
  show "\<exists>sub. sub_directory st' = Some sub \<and>
             fs_files st' = fs_files st @
               [\<lparr>file_name = directory st @ sub @ ''rf@''
                    @ sprintf_011_3f lib
                        (ddiv lib (double_of_u64 lib (next_global_sample + global_start_sample st))
                           (sample_rate st))
                    @ ''.h5'',
                 sequence_num = present_seq st', rf_data = [], rf_data_index = []\<rparr>]"
    using d(5) seq by (simp add: file_basename_def)
next
  assume h: "sub_directory_of lib st next_global_sample = Inr sub' \<and>
    directory st @ sub' \<in> set (fs_dirs st)"
  then show "digital_rf_create_new_directory lib st next_global_sample = (Inl MkdirFailed, st)"
    using create_new_directory_exists by blast
next
  assume h: "sub_directory_of lib st next_global_sample = Inr sub' \<and>
    directory st @ sub' \<in> set (fs_dirs st)"
    and g: "files_per_directory st \<noteq> 0 \<and> - 1 \<le> present_seq st \<and> present_seq st + 1 < 2 ^ 64 \<and>
       (present_seq st + 1) mod uint (files_per_directory st) = 0"
  have m: "((word_of_int (present_seq st + 1) :: u64) mod files_per_directory st = 0)
           \<longleftrightarrow> ((present_seq st + 1) mod uint (files_per_directory st) = 0)"
    using g by (intro seq_mod_int) simp_all
  show "fst (digital_rf_create_hdf5_file lib st next_global_sample) = Inl MkdirFailed"
  proof (rule create_hdf5_file_dir_exists [of st lib next_global_sample sub'])
    show "files_per_directory st \<noteq> 0" using g by simp
    show "(word_of_int (present_seq st + 1) :: u64) mod files_per_directory st = 0"
      using g m by simp
    show "sub_directory_of lib st next_global_sample = Inr sub'" using h by simp
    show "directory st @ sub' \<in> set (fs_dirs st)" using h by simp
  qed
qed

theorem file_open_rotation_witness:
  "fst (digital_rf_create_hdf5_file demo_lib demo_writer 0) = Inr () \<and>
   - 1 \<le> present_seq demo_writer \<and> present_seq demo_writer + 1 < 2 ^ 64 \<and>
   present_seq (snd (digital_rf_create_hdf5_file demo_lib demo_writer 0))
     = present_seq demo_writer + 1 \<and>
   present_seq (snd (digital_rf_create_hdf5_file demo_lib demo_writer 0))
     mod uint (files_per_directory demo_writer) = 0 \<and>
   fs_dirs (snd (digital_rf_create_hdf5_file demo_lib demo_writer 0))
     = [''/data/ch0/1970-01-01T00:16:40''] \<and>
   map file_name (fs_files (snd (digital_rf_create_hdf5_file demo_lib demo_writer 0)))
     = [''/data/ch0/1970-01-01T00:16:40/rf@0001000.000.h5''] \<and>
   sub_directory_of demo_lib (demo_writer\<lparr>fs_dirs := [''/data/ch0/1970-01-01T00:16:40'']\<rparr>) 0
     = Inr ''1970-01-01T00:16:40'' \<and>
   directory (demo_writer\<lparr>fs_dirs := [''/data/ch0/1970-01-01T00:16:40'']\<rparr>)
     @ ''1970-01-01T00:16:40''
     \<in> set (fs_dirs (demo_writer\<lparr>fs_dirs := [''/data/ch0/1970-01-01T00:16:40'']\<rparr>)) \<and>
   digital_rf_create_new_directory demo_lib
     (demo_writer\<lparr>fs_dirs := [''/data/ch0/1970-01-01T00:16:40'']\<rparr>) 0
     = (Inl MkdirFailed, demo_writer\<lparr>fs_dirs := [''/data/ch0/1970-01-01T00:16:40'']\<rparr>) \<and>
   fst (digital_rf_create_hdf5_file demo_lib
          (demo_writer\<lparr>fs_dirs := [''/data/ch0/1970-01-01T00:16:40'']\<rparr>) 0) = Inl MkdirFailed"
proof -
  let ?c = "digital_rf_create_hdf5_file demo_lib demo_writer 0"
  let ?st2 = "demo_writer\<lparr>fs_dirs := [''/data/ch0/1970-01-01T00:16:40'']\<rparr>"
  have ev: "fst ?c = Inr ()" by code_simp
  then have c: "?c = (Inr (), snd ?c)" by (metis prod.collapse)
  have s1: "- 1 \<le> present_seq demo_writer" by (simp add: demo_writer_def)
  have s2: "present_seq demo_writer + 1 < 2 ^ 64" by (simp add: demo_writer_def)
  have t1: "present_seq (snd ?c) = present_seq demo_writer + 1"
    using file_open_rotation [of demo_lib demo_writer 0 "snd ?c"] c s1 s2 by blast
  have md: "present_seq (snd ?c) mod uint (files_per_directory demo_writer) = 0"
    using t1 by (simp add: demo_writer_def)
  have dirs: "fs_dirs (snd ?c) = [''/data/ch0/1970-01-01T00:16:40'']" by code_simp
  have files: "map file_name (fs_files (snd ?c))
     = [''/data/ch0/1970-01-01T00:16:40/rf@0001000.000.h5'']" by code_simp
  have sd: "sub_directory_of demo_lib ?st2 0 = Inr ''1970-01-01T00:16:40''" by code_simp
  have ex: "directory ?st2 @ ''1970-01-01T00:16:40'' \<in> set (fs_dirs ?st2)"
    by (simp add: demo_writer_def)
  have f0: "files_per_directory ?st2 \<noteq> 0" by (simp add: demo_writer_def)
  have s1': "- 1 \<le> present_seq ?st2" by (simp add: demo_writer_def)
  have s2': "present_seq ?st2 + 1 < 2 ^ 64" by (simp add: demo_writer_def)
  have md': "(present_seq ?st2 + 1) mod uint (files_per_directory ?st2) = 0"
    by (simp add: demo_writer_def)
  note t = file_open_rotation [of demo_lib ?st2 0 ?st2 "''1970-01-01T00:16:40''",
             THEN conjunct2, rule_format, OF conjI [OF sd ex]]
  have t2: "digital_rf_create_new_directory demo_lib ?st2 0 = (Inl MkdirFailed, ?st2)"
    using t by (rule conjunct1)
  have t3: "fst (digital_rf_create_hdf5_file demo_lib ?st2 0) = Inl MkdirFailed"
    using t [THEN conjunct2] f0 s1' s2' md' by simp
  show ?thesis
    by (intro conjI ev s1 s2 t1 md dirs files sd ex t2 t3)
qed

text \<open>
  Claim C8: the fill value is the minimum for a signed integer type, zero for an unsigned
  one, a quiet NaN for a float type, and for a complex type a struct whose fields \<open>r\<close> and
  \<open>i\<close> are both the scalar fill value. For 32-bit floats that are not complex this is not
  what the code does: it passes the address of the 8-byte \<open>double_fill\<close> for a 4-byte type, so
  HDF5 takes the first four bytes of the double NaN. On a little-endian host and for
  \<open>H5T_IEEE_F32LE\<close> these are four zero bytes, the float 0.0 and not a NaN, whereas the
  complex type of the same element gets the float NaN \<open>0x7fc00000\<close> in both fields.
\<close>

theorem float32_fill_is_not_nan:
  "digital_rf_set_fill_value True
     \<lparr>dtype_class = H5T_FLOAT, dtype_sign = H5T_SGN_2, dtype_size = 4,
      dtype_order = H5T_ORDER_LE\<rparr> False = Inr (FillBytes [0, 0, 0, 0])
   \<and> unsigned_value H5T_ORDER_LE [0, 0, 0, 0] = 0
   \<and> \<not> is_quiet_nan H5T_ORDER_LE [0, 0, 0, 0]
   \<and> digital_rf_set_fill_value True
     \<lparr>dtype_class = H5T_FLOAT, dtype_sign = H5T_SGN_2, dtype_size = 4,
      dtype_order = H5T_ORDER_LE\<rparr> True
       = Inr (FillBytes ([0, 0, 0xC0, 0x7F] @ [0, 0, 0xC0, 0x7F]))
   \<and> is_quiet_nan H5T_ORDER_LE [0, 0, 0xC0, 0x7F]"
  unfolding digital_rf_set_fill_value_def Let_def
  by (simp add: H5Pset_fill_value_def byte_defs value_defs)


text \<open>
  Claim C9: for an integral sample rate the time conversion takes the calendar fields from
  the second \<open>floor (g / sample_rate)\<close> and gives the picoseconds of the exact remainder. This
  is not what the code does: the second is the double quotient of the sample count,
  converted to double, and the rate; only the remainder is computed in integers, from that
  second. With IEEE-754 doubles, for sample \<open>2 ^ 53 + 1\<close> at rate 1 the conversion to
  double rounds to \<open>2 ^ 53\<close>, so \<open>gmtime\<close> is asked for second \<open>2 ^ 53\<close> instead of
  \<open>2 ^ 53 + 1\<close>, and the picoseconds are \<open>10 ^ 12\<close>, a whole second, instead of 0.
\<close>

theorem unix_time_second_from_double_quotient:
  "digital_rf_get_unix_time (ieee_lib gm pr) 9007199254740993 1 =
     (case gm 9007199254740992 of
        None \<Rightarrow> Inl GmtimeFailed
      | Some t \<Rightarrow> Inr (tm_year t + 1900, tm_mon t + 1, tm_mday t, tm_hour t, tm_min t, tm_sec t,
                      1000000000000))"
  unfolding digital_rf_get_unix_time_def ieee_lib_def
  by (simp add: rne_large rne_small truncate_rat_def round_rat_1e12 split: option.split)

end
